theory Spec2Isabelle
  imports Main "HOL-Library.Sublist"
begin

section \<open>The job lifecycle controller of the law-document front end\<close>

text \<open>
  The source holds two variants of the \<open>App\<close> component: a simulated driver, which
  advances a local progress bar with timers and never touches the network, and a live
  driver, which creates a job, uploads the file, triggers the start and polls the job
  API. Both share the file picker and the React state cells \<open>risk\<close>, \<open>file\<close>,
  \<open>jobId\<close>, \<open>status\<close>, \<open>resultUrl\<close>, \<open>resultData\<close>, \<open>error\<close> and \<open>busy\<close>.

  JavaScript runs the component on one thread: a handler, a timer callback or the part
  of an \<open>async\<close> function between two \<open>await\<close>s runs to its end before anything else
  does. Each such piece is one function on the state here, and the browser is an event
  that says which piece runs next.
\<close>

subsection \<open>Files and the extension check\<close>

record jsfile =
  file_name :: string
  file_type :: string
  file_size :: nat
  file_body :: string

text \<open>
  The \<open>i\<close> flag compares characters after canonicalisation, which is \<open>toUpperCase\<close>
  except that a code unit above 127 is never mapped to one below 128. The patterns of
  the source are ASCII, so only the mapping of \<open>a\<close>..\<open>z\<close> matters. A name is a list of
  8-bit characters here; a character outside ASCII, as one code unit or as its UTF-8
  bytes, never equals a character of the patterns either way.
\<close>

definition canonicalize :: "char \<Rightarrow> char" where
  "canonicalize c =
     (let n = (of_char c :: nat) in if 97 \<le> n \<and> n \<le> 122 then char_of (n - 32) else c)"

text \<open>
  The fragment of regular expressions the source uses: a character, a sequence, an
  alternative, an optional item and the end anchor. \<open>rmatch r s\<close> lists, in the order a
  backtracking matcher tries them, what is left of \<open>s\<close> after each way of matching \<open>r\<close>
  at its start.
\<close>

datatype regex = Chr char | Seq regex regex | Alt regex regex | Opt regex | Eoi

fun rmatch :: "regex \<Rightarrow> string \<Rightarrow> string list" where
  "rmatch (Chr c) s =
     (case s of [] \<Rightarrow> [] | x # xs \<Rightarrow> if canonicalize x = canonicalize c then [xs] else [])"
| "rmatch (Seq a b) s = concat (map (rmatch b) (rmatch a s))"
| "rmatch (Alt a b) s = rmatch a s @ rmatch b s"
| "rmatch (Opt a) s = rmatch a s @ [s]"
| "rmatch Eoi s = (if s = [] then [[]] else [])"

text \<open>\<open>RegExp.prototype.test\<close>: try every start position from the left.\<close>

fun regex_test :: "regex \<Rightarrow> string \<Rightarrow> bool" where
  "regex_test r [] = (rmatch r [] \<noteq> [])"
| "regex_test r (x # xs) = (rmatch r (x # xs) \<noteq> [] \<or> regex_test r xs)"

text \<open>\<^verbatim>\<open>/\.(html?|xml)$/i\<close>\<close>

definition allowed_re :: regex where
  "allowed_re =
     Seq (Chr CHR ''.'')
       (Seq (Alt (Seq (Chr CHR ''h'') (Seq (Chr CHR ''t'') (Seq (Chr CHR ''m'') (Opt (Chr CHR ''l'')))))
                 (Seq (Chr CHR ''x'') (Seq (Chr CHR ''m'') (Chr CHR ''l''))))
            Eoi)"

text \<open>\<^verbatim>\<open>/\.(xml)$/i\<close>\<close>

definition xml_re :: regex where
  "xml_re = Seq (Chr CHR ''.'') (Seq (Seq (Chr CHR ''x'') (Seq (Chr CHR ''m'') (Chr CHR ''l''))) Eoi)"

text \<open>\<^verbatim>\<open>const isAllowed = (f) => !!f && /\.(html?|xml)$/i.test(f.name)\<close>\<close>

definition isAllowed :: "jsfile option \<Rightarrow> bool" where
  "isAllowed f = (case f of None \<Rightarrow> False | Some x \<Rightarrow> regex_test allowed_re (file_name x))"

text \<open>
  The rule as the specification words it: the name, in lower case, ends in one of the
  three extensions.
\<close>

definition to_lower :: "char \<Rightarrow> char" where
  "to_lower c =
     (let n = (of_char c :: nat) in if 65 \<le> n \<and> n \<le> 90 then char_of (n + 32) else c)"

definition spec_accepts_name :: "string \<Rightarrow> bool" where
  "spec_accepts_name nm =
     list_ex (\<lambda>e. suffix e (map to_lower nm)) [''.htm'', ''.html'', ''.xml'']"

subsection \<open>The state shared by both drivers, and the picker\<close>

datatype risk_profile = SAFE | MEDIUM | RISKY

fun risk_key :: "risk_profile \<Rightarrow> string" where
  "risk_key SAFE = ''SAFE''"
| "risk_key MEDIUM = ''MEDIUM''"
| "risk_key RISKY = ''RISKY''"

record payload =
  summary :: string
  stocks :: "string list"
  comment :: string

text \<open>
  The \<open>useState\<close> cells. The cell \<open>file\<close> of the source is \<open>chosen_file\<close> here, and
  \<open>null\<close> is \<open>None\<close>.
\<close>

record app_state =
  risk :: risk_profile
  chosen_file :: "jsfile option"
  jobId :: "string option"
  status :: "string option"
  resultUrl :: "string option"
  resultData :: "payload option"
  error :: "string option"
  busy :: bool

definition pick :: "jsfile option \<Rightarrow> 'a app_state_scheme \<Rightarrow> 'a app_state_scheme" where
  "pick f s =
     (if \<not> isAllowed f
      then s\<lparr>error := Some ''Only .html or .xml files are accepted.'', chosen_file := None\<rparr>
      else s\<lparr>error := None, chosen_file := f\<rparr>)"

subsection \<open>Browser timers\<close>

text \<open>
  A pending timer has the handle \<open>setTimeout\<close>/\<open>setInterval\<close> returned, its delay in
  milliseconds, and \<open>seq\<close>, its place in the order in which timers were armed (an
  interval is armed again each time it fires). The browser promises no punctuality, only
  an order: a timer does not run while one armed before it with a delay no longer than
  its own is still pending. No clock is kept: every order of firings that respects this
  rule is a behaviour of the model. One counter issues the handles and the places in the
  order, so handles grow without being consecutive; the code only stores the handles it
  is given and hands them back to \<open>clearTimeout\<close> and \<open>clearInterval\<close>.
\<close>

record 'cb timer =
  handle :: nat
  seq :: nat
  delay :: nat
  repeating :: bool
  callback :: 'cb

definition new_timer :: "nat \<Rightarrow> bool \<Rightarrow> 'cb \<Rightarrow> nat \<Rightarrow> 'cb timer" where
  "new_timer n rep cb ms = \<lparr>handle = n, seq = n, delay = ms, repeating = rep, callback = cb\<rparr>"

definition clear_timer :: "nat \<Rightarrow> 'cb timer list \<Rightarrow> 'cb timer list" where
  "clear_timer h ts = filter (\<lambda>t. handle t \<noteq> h) ts"

definition find_timer :: "nat \<Rightarrow> 'cb timer list \<Rightarrow> 'cb timer option" where
  "find_timer h ts = find (\<lambda>t. handle t = h) ts"

definition may_fire :: "'cb timer \<Rightarrow> 'cb timer list \<Rightarrow> bool" where
  "may_fire t ts = list_all (\<lambda>u. \<not> (seq u < seq t \<and> delay u \<le> delay t)) ts"

definition rearm :: "nat \<Rightarrow> nat \<Rightarrow> 'cb timer list \<Rightarrow> 'cb timer list" where
  "rearm h n ts = map (\<lambda>t. if handle t = h then t\<lparr>seq := n\<rparr> else t) ts"

subsection \<open>Number formatting\<close>

definition digit_char :: "nat \<Rightarrow> char" where
  "digit_char d = ''0123456789abcdefghijklmnopqrstuvwxyz'' ! d"

text \<open>
  \<open>Number.prototype.toString(radix)\<close> on a non-negative integer. The source calls it with
  radix 36 only, and formats a status code in decimal; outside \<open>2..36\<close> JavaScript throws
  a \<open>RangeError\<close>, which is the empty string here. A digit is always below the radix,
  so \<open>digit_char\<close> is only read inside its 36 characters.
\<close>

function toString_radix :: "nat \<Rightarrow> nat \<Rightarrow> string" where
  "toString_radix b n =
     (if b < 2 \<or> 36 < b then []
      else if n < b then [digit_char n]
      else toString_radix b (n div b) @ [digit_char (n mod b)])"
  by pat_completeness auto
termination
  by (relation "measure snd") auto

declare toString_radix.simps [simp del]

subsection \<open>The simulated driver\<close>

text \<open>
  The callbacks the simulated \<open>start\<close> hands to the browser. \<open>Tick k\<close> is the interval
  callback together with the current value of its captured counter \<open>k\<close>; \<open>ToComplete\<close>
  carries the file name and the risk profile its closure captured.
\<close>

datatype sim_callback = ToRunning | Tick nat | ToComplete string risk_profile | ConfettiOff

record sim_state = app_state +
  progress :: nat
  showConfetti :: bool
  timersRef :: "nat list"
  intervalsRef :: "nat list"
  sim_timers :: "sim_callback timer list"
  sim_ticket :: nat

definition sim_init :: sim_state where
  "sim_init =
     \<lparr>risk = MEDIUM, chosen_file = None, jobId = None, status = None, resultUrl = None,
      resultData = None, error = None, busy = False,
      progress = 0, showConfetti = False, timersRef = [], intervalsRef = [],
      sim_timers = [], sim_ticket = 0\<rparr>"

definition sim_setTimer :: "bool \<Rightarrow> sim_callback \<Rightarrow> nat \<Rightarrow> sim_state \<Rightarrow> nat \<times> sim_state" where
  "sim_setTimer rep cb ms s =
     (sim_ticket s,
      s\<lparr>sim_timers := sim_timers s @ [new_timer (sim_ticket s) rep cb ms],
        sim_ticket := Suc (sim_ticket s)\<rparr>)"

text \<open>\<open>hs.forEach((t) => clearTimeout(t))\<close>; timeouts and intervals share one pool of handles.\<close>

definition clear_each :: "nat list \<Rightarrow> 'cb timer list \<Rightarrow> 'cb timer list" where
  "clear_each hs ts = fold clear_timer hs ts"

definition clearTimers :: "sim_state \<Rightarrow> sim_state" where
  "clearTimers s =
     s\<lparr>sim_timers := clear_each (intervalsRef s) (clear_each (timersRef s) (sim_timers s)),
       timersRef := [], intervalsRef := []\<rparr>"

definition sim_cancelPolling :: "sim_state \<Rightarrow> sim_state" where
  "sim_cancelPolling s = (clearTimers s)\<lparr>busy := False\<rparr>"

definition totalMs :: nat where "totalMs = 9000"

definition tickMs :: nat where "tickMs = 120"

definition ticks :: nat where "ticks = (totalMs - 900) div tickMs"

text \<open>
  \<open>Math.round(n / d)\<close> for naturals rounds a half up. The source rounds the double
  \<open>(k / ticks) * 96\<close>; with \<open>ticks = 67\<close> the exact quotient \<open>96 k / 67\<close> is never
  closer than \<open>1/134\<close> to a half, so the rounding error of the double cannot change the
  result and the integer formula is the value the source computes.
\<close>

definition js_round_div :: "nat \<Rightarrow> nat \<Rightarrow> nat" where
  "js_round_div n d = (2 * n + d) div (2 * d)"

definition pct :: "nat \<Rightarrow> nat" where
  "pct k = min 96 (js_round_div (k * 96) ticks)"

text \<open>
  \<^verbatim>\<open>`JOB-${Date.now().toString(36)}-${Math.random().toString(36).slice(2, 8)}`\<close>:
  \<open>now\<close> is the reading of the clock in milliseconds and \<open>rnd\<close> the text
  \<open>Math.random().toString(36)\<close>, both supplied by the browser.
\<close>

definition slice :: "nat \<Rightarrow> nat \<Rightarrow> string \<Rightarrow> string" where
  "slice i j str = take (j - i) (drop i str)"

definition make_job_id :: "nat \<Rightarrow> string \<Rightarrow> string" where
  "make_job_id now rnd = ''JOB-'' @ toString_radix 36 now @ ''-'' @ slice 2 8 rnd"

definition mock_result :: "string \<Rightarrow> risk_profile \<Rightarrow> payload" where
  "mock_result nm r =
     \<lparr>summary = ''Document parsed successfully. Portfolio screened for legislative risk; sector tilts and top holdings updated.'',
      stocks = [''AAPL'', ''MSFT'', ''AMZN''],
      comment = ''Processed '' @ nm @ '' under '' @ risk_key r
        @ '' profile. Use View After Analysis to see the recommended positioning and rationale.''\<rparr>"

text \<open>
  The typographic quotation marks around \<open>View After Analysis\<close> in the comment of the
  source are outside ASCII and left out above.

  \<open>URL.createObjectURL\<close> returns \<open>blob:\<close> followed by an identifier the browser picks.
\<close>

definition createObjectURL :: "string \<Rightarrow> string" where
  "createObjectURL ident = ''blob:'' @ ident"

text \<open>
  The simulated \<open>start\<close>. Nothing in its \<open>try\<close> block can throw, so the \<open>catch\<close> branch
  (error, \<open>busy = false\<close>, \<open>FAILED\<close>) is never taken and has no counterpart here.
\<close>

definition sim_start :: "nat \<Rightarrow> string \<Rightarrow> sim_state \<Rightarrow> sim_state" where
  "sim_start now rnd s =
     (let s0 = s\<lparr>error := None, resultUrl := None, resultData := None,
                 showConfetti := False, progress := 0\<rparr>
      in case chosen_file s of
           None \<Rightarrow> s0\<lparr>error := Some ''Please select a .html or .xml file.''\<rparr>
         | Some f \<Rightarrow>
             (let s1 = s0\<lparr>busy := True, status := Some ''PENDING'',
                          jobId := Some (make_job_id now rnd)\<rparr>;
                  (toRunning, s2) = sim_setTimer False ToRunning 900 s1;
                  s3 = s2\<lparr>timersRef := timersRef s2 @ [toRunning]\<rparr>;
                  (interval, s4) = sim_setTimer True (Tick 0) tickMs s3;
                  s5 = s4\<lparr>intervalsRef := intervalsRef s4 @ [interval]\<rparr>;
                  (toComplete, s6) =
                     sim_setTimer False (ToComplete (file_name f) (risk s)) totalMs s5
              in s6\<lparr>timersRef := timersRef s6 @ [toComplete]\<rparr>))"

text \<open>
  The body of each callback; \<open>h\<close> is the handle of the timer that fired and \<open>ident\<close> the
  identifier the browser would give a blob URL created now.
\<close>

fun sim_callback_run :: "nat \<Rightarrow> string \<Rightarrow> sim_callback \<Rightarrow> sim_state \<Rightarrow> sim_state" where
  "sim_callback_run h ident ToRunning s = s\<lparr>status := Some ''RUNNING''\<rparr>"
| "sim_callback_run h ident (Tick k) s =
     s\<lparr>sim_timers :=
          map (\<lambda>t. if handle t = h then t\<lparr>callback := Tick (k + 1)\<rparr> else t) (sim_timers s),
       progress := pct (k + 1)\<rparr>"
| "sim_callback_run h ident (ToComplete nm r) s =
     (let s1 = s\<lparr>sim_timers := clear_each (intervalsRef s) (sim_timers s), intervalsRef := []\<rparr>;
          s2 = s1\<lparr>progress := 100, resultData := Some (mock_result nm r),
                  resultUrl := Some (createObjectURL ident), status := Some ''COMPLETED'',
                  busy := False, showConfetti := True\<rparr>;
          (confettiTimer, s3) = sim_setTimer False ConfettiOff 2500 s2
      in s3\<lparr>timersRef := timersRef s3 @ [confettiTimer]\<rparr>)"
| "sim_callback_run h ident ConfettiOff s = s\<lparr>showConfetti := False\<rparr>"

text \<open>
  The browser runs the timer with handle \<open>h\<close>, if it is pending and its turn has come: a
  timeout leaves the table, an interval is armed again, then the callback runs.
\<close>

definition sim_fire :: "nat \<Rightarrow> string \<Rightarrow> sim_state \<Rightarrow> sim_state" where
  "sim_fire h ident s =
     (case find_timer h (sim_timers s) of
        None \<Rightarrow> s
      | Some t \<Rightarrow>
          if \<not> may_fire t (sim_timers s) then s
          else sim_callback_run h ident (callback t)
                 (s\<lparr>sim_timers := (if repeating t then rearm h (sim_ticket s) (sim_timers s)
                                    else clear_timer h (sim_timers s)),
                    sim_ticket := Suc (sim_ticket s)\<rparr>))"

text \<open>
  What can happen to the simulated component. The buttons follow the JSX: the risk
  buttons are disabled while busy, \<open>Start\<close> is disabled while busy or without a file,
  \<open>Cancel\<close> is rendered only while busy; a file can be dropped at any time.
\<close>

datatype sim_event =
    SimPick "jsfile option"
  | SimSetRisk risk_profile
  | SimClickStart nat string
  | SimClickCancel
  | SimFire nat string

fun sim_step :: "sim_state \<Rightarrow> sim_event \<Rightarrow> sim_state" where
  "sim_step s (SimPick f) = pick f s"
| "sim_step s (SimSetRisk r) = (if busy s then s else s\<lparr>risk := r\<rparr>)"
| "sim_step s (SimClickStart now rnd) =
     (if busy s \<or> chosen_file s = None then s else sim_start now rnd s)"
| "sim_step s SimClickCancel = (if busy s then sim_cancelPolling s else s)"
| "sim_step s (SimFire h ident) = sim_fire h ident s"

definition sim_run :: "sim_event list \<Rightarrow> sim_state" where
  "sim_run es = foldl sim_step sim_init es"

subsection \<open>The live driver\<close>

text \<open>
  What a \<open>fetch\<close> can bring back: the promise rejects (no connection), or a response
  arrives with a status code and a body, which parses into the expected JSON or does
  not (then \<open>r.json()\<close> rejects). \<open>r.ok\<close> holds for the codes 200 to 299.
\<close>

datatype 'a body = Unparsable string | Json 'a

datatype 'a reply = Rejected string | Response nat "'a body"

definition ok :: "nat \<Rightarrow> bool" where
  "ok code = (200 \<le> code \<and> code \<le> 299)"

record create_json =
  job_id :: string
  upload_url :: string

text \<open>The body of \<open>GET /jobs/{id}\<close>; an absent field is \<open>None\<close>.\<close>

record job_json =
  json_status :: "string option"
  result_url :: "string option"

text \<open>JavaScript truthiness of a field that is absent or a string.\<close>

definition truthy :: "string option \<Rightarrow> bool" where
  "truthy v = (case v of None \<Rightarrow> False | Some str \<Rightarrow> str \<noteq> [])"

text \<open>
  An \<open>async\<close> function that waits for a response is suspended with what it still has to
  do: \<open>start\<close> waits for the creation, the upload or the start call; \<open>getJob\<close> waits for
  the status, called either directly from \<open>beginPolling\<close> or from the interval callback.
\<close>

datatype pending_call =
    AwaitCreate string jsfile
  | AwaitUpload string
  | AwaitStart string
  | AwaitPollFirst string
  | AwaitPollTick string

text \<open>
  The timers of the live driver: the 800 ms promise inside \<open>start\<close> and the polling
  interval, each with the job id its closure holds.
\<close>

datatype live_callback = Grace string | PollTick string

text \<open>
  \<open>inflight\<close> holds the suspended calls under the number of their request; \<open>queries\<close>
  records every status query sent, oldest first. The effect that downloads the result
  once \<open>resultUrl\<close> changes only writes \<open>resultData\<close> and is left out.
\<close>

record live_state = app_state +
  pollRef :: "nat option"
  live_timers :: "live_callback timer list"
  live_ticket :: nat
  inflight :: "(nat \<times> pending_call) list"
  next_request :: nat
  queries :: "string list"

definition live_init :: live_state where
  "live_init =
     \<lparr>risk = MEDIUM, chosen_file = None, jobId = None, status = None, resultUrl = None,
      resultData = None, error = None, busy = False,
      pollRef = None, live_timers = [], live_ticket = 0, inflight = [], next_request = 0,
      queries = []\<rparr>"

definition live_setTimer :: "bool \<Rightarrow> live_callback \<Rightarrow> nat \<Rightarrow> live_state \<Rightarrow> nat \<times> live_state" where
  "live_setTimer rep cb ms s =
     (live_ticket s,
      s\<lparr>live_timers := live_timers s @ [new_timer (live_ticket s) rep cb ms],
        live_ticket := Suc (live_ticket s)\<rparr>)"

definition clearInterval :: "nat option \<Rightarrow> live_state \<Rightarrow> live_state" where
  "clearInterval r s =
     (case r of None \<Rightarrow> s | Some h \<Rightarrow> s\<lparr>live_timers := clear_timer h (live_timers s)\<rparr>)"

definition send :: "pending_call \<Rightarrow> live_state \<Rightarrow> live_state" where
  "send k s =
     s\<lparr>inflight := inflight s @ [(next_request s, k)], next_request := Suc (next_request s)\<rparr>"

definition settle :: "nat \<Rightarrow> live_state \<Rightarrow> live_state" where
  "settle i s = s\<lparr>inflight := filter (\<lambda>p. fst p \<noteq> i) (inflight s)\<rparr>"

text \<open>The \<open>catch\<close> block of \<open>start\<close>.\<close>

definition fail :: "string \<Rightarrow> live_state \<Rightarrow> live_state" where
  "fail msg s =
     s\<lparr>error := Some (if msg = [] then ''Unexpected error'' else msg),
       busy := False, status := Some ''FAILED''\<rparr>"

definition contentType_of :: "jsfile \<Rightarrow> string" where
  "contentType_of f =
     (if file_type f \<noteq> [] then file_type f
      else if regex_test xml_re (file_name f) then ''application/xml'' else ''text/html'')"

text \<open>\<open>start\<close>, up to the first \<open>await\<close>.\<close>

definition live_start :: "live_state \<Rightarrow> live_state" where
  "live_start s =
     (let s0 = s\<lparr>error := None, resultUrl := None\<rparr>
      in case chosen_file s of
           None \<Rightarrow> s0\<lparr>error := Some ''Please select a .html or .xml file.''\<rparr>
         | Some f \<Rightarrow> send (AwaitCreate (contentType_of f) f) (s0\<lparr>busy := True\<rparr>))"

text \<open>\<open>getJob\<close>: sending the query, and what it does once the response is there.\<close>

definition getJob_send :: "(string \<Rightarrow> pending_call) \<Rightarrow> string \<Rightarrow> live_state \<Rightarrow> live_state" where
  "getJob_send k ident s = send (k ident) (s\<lparr>queries := queries s @ [ident]\<rparr>)"

definition getJob :: "job_json reply \<Rightarrow> live_state \<Rightarrow> (string + job_json option) \<times> live_state" where
  "getJob r s =
     (case r of
        Rejected msg \<Rightarrow> (Inl msg, s)
      | Response code b \<Rightarrow>
          if code = 404 then (Inr None, s)
          else if \<not> ok code then (Inl ''Status check failed'', s)
          else (case b of
                  Unparsable msg \<Rightarrow> (Inl msg, s)
                | Json d \<Rightarrow>
                    (Inr (Some d),
                     s\<lparr>status := json_status d,
                       resultUrl := (if truthy (result_url d) then result_url d else resultUrl s)\<rparr>)))"

definition beginPolling :: "string \<Rightarrow> live_state \<Rightarrow> live_state" where
  "beginPolling ident s =
     (let s1 = clearInterval (pollRef s) s;
          s2 = getJob_send AwaitPollFirst ident s1;
          (h, s3) = live_setTimer True (PollTick ident) 2500 s2
      in s3\<lparr>pollRef := Some h\<rparr>)"

text \<open>\<open>getJob(id).catch(() => {})\<close> in \<open>beginPolling\<close>: the outcome is dropped.\<close>

definition after_poll_first :: "job_json reply \<Rightarrow> live_state \<Rightarrow> live_state" where
  "after_poll_first r s = snd (getJob r s)"

text \<open>The interval callback after its \<open>await getJob(id)\<close>, inside \<open>try { } catch {}\<close>.\<close>

definition after_poll_tick :: "job_json reply \<Rightarrow> live_state \<Rightarrow> live_state" where
  "after_poll_tick r s =
     (case getJob r s of
        (Inl e, s') \<Rightarrow> s'
      | (Inr None, s') \<Rightarrow> (clearInterval (pollRef s') s')\<lparr>busy := False\<rparr>
      | (Inr (Some d), s') \<Rightarrow>
          if truthy (result_url d) \<or> json_status d = Some ''FAILED''
          then (clearInterval (pollRef s') s')\<lparr>busy := False\<rparr>
          else s')"

text \<open>The rest of \<open>start\<close>, one piece per \<open>await\<close>.\<close>

definition after_create :: "create_json reply \<Rightarrow> live_state \<Rightarrow> live_state" where
  "after_create r s =
     (case r of
        Rejected msg \<Rightarrow> fail msg s
      | Response code b \<Rightarrow>
          if \<not> ok code then fail ''Failed to create job'' s
          else (case b of
                  Unparsable msg \<Rightarrow> fail msg s
                | Json j \<Rightarrow>
                    send (AwaitUpload (job_id j))
                      (s\<lparr>jobId := Some (job_id j), status := Some ''PENDING''\<rparr>)))"

definition after_upload :: "string reply \<Rightarrow> string \<Rightarrow> live_state \<Rightarrow> live_state" where
  "after_upload r ident s =
     (case r of
        Rejected msg \<Rightarrow> fail msg s
      | Response code b \<Rightarrow>
          if \<not> ok code
          then fail (''Upload failed ('' @ toString_radix 10 code @ '') ''
                       @ (case b of Unparsable msg \<Rightarrow> [] | Json txt \<Rightarrow> txt)) s
          else snd (live_setTimer False (Grace ident) 800 s))"

definition after_grace :: "string \<Rightarrow> live_state \<Rightarrow> live_state" where
  "after_grace ident s = send (AwaitStart ident) s"

definition after_start :: "unit reply \<Rightarrow> string \<Rightarrow> live_state \<Rightarrow> live_state" where
  "after_start r ident s =
     (case r of
        Rejected msg \<Rightarrow> fail msg s
      | Response code b \<Rightarrow>
          if code \<noteq> 202 then fail ''Failed to start job'' s
          else beginPolling ident (s\<lparr>status := Some ''RUNNING''\<rparr>))"

definition live_cancelPolling :: "live_state \<Rightarrow> live_state" where
  "live_cancelPolling s = (clearInterval (pollRef s) s)\<lparr>busy := False\<rparr>"

definition live_fire :: "nat \<Rightarrow> live_state \<Rightarrow> live_state" where
  "live_fire h s =
     (case find_timer h (live_timers s) of
        None \<Rightarrow> s
      | Some t \<Rightarrow>
          if \<not> may_fire t (live_timers s) then s
          else (let s1 = s\<lparr>live_timers := (if repeating t then rearm h (live_ticket s) (live_timers s)
                                             else clear_timer h (live_timers s)),
                           live_ticket := Suc (live_ticket s)\<rparr>
                in case callback t of
                     Grace ident \<Rightarrow> after_grace ident s1
                   | PollTick ident \<Rightarrow> getJob_send AwaitPollTick ident s1))"

text \<open>
  What can happen to the live component: the user's actions, gated as in the JSX, a
  timer, or the response to request \<open>i\<close>, which resumes the call suspended on it.
\<close>

datatype live_event =
    Pick "jsfile option"
  | SetRisk risk_profile
  | ClickStart
  | ClickCancel
  | Fire nat
  | CreateReply nat "create_json reply"
  | UploadReply nat "string reply"
  | StartReply nat "unit reply"
  | PollReply nat "job_json reply"

fun live_step :: "live_state \<Rightarrow> live_event \<Rightarrow> live_state" where
  "live_step s (Pick f) = pick f s"
| "live_step s (SetRisk r) = (if busy s then s else s\<lparr>risk := r\<rparr>)"
| "live_step s ClickStart = (if busy s \<or> chosen_file s = None then s else live_start s)"
| "live_step s ClickCancel = (if busy s then live_cancelPolling s else s)"
| "live_step s (Fire h) = live_fire h s"
| "live_step s (CreateReply i r) =
     (case map_of (inflight s) i of
        Some (AwaitCreate ct f) \<Rightarrow> after_create r (settle i s)
      | _ \<Rightarrow> s)"
| "live_step s (UploadReply i r) =
     (case map_of (inflight s) i of
        Some (AwaitUpload ident) \<Rightarrow> after_upload r ident (settle i s)
      | _ \<Rightarrow> s)"
| "live_step s (StartReply i r) =
     (case map_of (inflight s) i of
        Some (AwaitStart ident) \<Rightarrow> after_start r ident (settle i s)
      | _ \<Rightarrow> s)"
| "live_step s (PollReply i r) =
     (case map_of (inflight s) i of
        Some (AwaitPollFirst ident) \<Rightarrow> after_poll_first r (settle i s)
      | Some (AwaitPollTick ident) \<Rightarrow> after_poll_tick r (settle i s)
      | _ \<Rightarrow> s)"

definition live_run :: "live_event list \<Rightarrow> live_state" where
  "live_run es = foldl live_step live_init es"

subsection \<open>Sample inputs\<close>

definition law_html :: jsfile where
  "law_html = \<lparr>file_name = ''Law.HTML'', file_type = ''text/html'', file_size = 2048, file_body = ''<html></html>''\<rparr>"

definition brief_pdf :: jsfile where
  "brief_pdf = \<lparr>file_name = ''brief.pdf'', file_type = ''application/pdf'', file_size = 9, file_body = ''%PDF-1.7''\<rparr>"

text \<open>A submission in the simulated driver: two ticks and the switch to \<open>RUNNING\<close>.\<close>

definition sim_two_ticks :: "sim_event list" where
  "sim_two_ticks =
     [SimPick (Some law_html), SimClickStart 1762086000000 ''0.4fzyo82mvyr'',
      SimFire 1 [], SimFire 0 [], SimFire 1 []]"

text \<open>
  A submission in the live driver: the job is created as \<open>job-17\<close>, the upload
  succeeds, the grace timer (handle 0) fires, the start call is answered with 202, the
  first status query reports \<open>RUNNING\<close>, and the polling interval (handle 2) fires once,
  sending the query with request number 4.
\<close>

definition live_created :: "live_event list" where
  "live_created =
     [Pick (Some law_html), ClickStart,
      CreateReply 0 (Response 200 (Json \<lparr>job_id = ''job-17'', upload_url = ''https://bucket/put''\<rparr>))]"

definition live_uploaded :: "live_event list" where
  "live_uploaded = live_created @ [UploadReply 1 (Response 200 (Json []))]"

definition running_json :: job_json where
  "running_json = \<lparr>json_status = Some ''RUNNING'', result_url = None\<rparr>"

definition live_polling :: "live_event list" where
  "live_polling =
     live_uploaded @
     [Fire 0, StartReply 2 (Response 202 (Json ())),
      PollReply 3 (Response 200 (Json running_json)), Fire 2]"

text \<open>
  The same submission with a click on \<open>Cancel\<close> while the upload is under way; the
  upload then succeeds and the grace timer fires.
\<close>

definition live_cancelled_early :: "live_event list" where
  "live_cancelled_early =
     live_created @ [ClickCancel, UploadReply 1 (Response 200 (Json [])), Fire 0]"

subsection \<open>Invariants of the simulated driver\<close>

definition is_tick :: "sim_callback timer \<Rightarrow> bool" where
  "is_tick t = (case callback t of Tick k \<Rightarrow> True | _ \<Rightarrow> False)"

definition is_complete :: "sim_callback timer \<Rightarrow> bool" where
  "is_complete t = (case callback t of ToComplete nm r \<Rightarrow> True | _ \<Rightarrow> False)"

text \<open>Handles are issued in increasing order, so a handle names one pending timer.\<close>

definition handles_ok :: "'cb timer list \<Rightarrow> nat \<Rightarrow> bool" where
  "handles_ok ts n \<longleftrightarrow>
     (\<forall>t\<in>set ts. handle t < n) \<and> (\<forall>t\<in>set ts. \<forall>u\<in>set ts. handle t = handle u \<longrightarrow> t = u)"

text \<open>
  The timers of a submission are pending only while busy, are listed in the refs that
  \<open>clearTimers\<close> walks, and come at most once each; \<open>toRunning\<close> was armed before
  \<open>toComplete\<close>; the bar shows what the interval's counter says.
\<close>

definition timers_ok :: "sim_state \<Rightarrow> bool" where
  "timers_ok s \<longleftrightarrow>
     (\<forall>t\<in>set (sim_timers s). callback t = ToRunning \<longrightarrow>
        busy s \<and> delay t = 900 \<and> \<not> repeating t \<and> handle t \<in> set (timersRef s)
        \<and> (\<forall>u\<in>set (sim_timers s). is_complete u \<longrightarrow> seq t < seq u))
     \<and> (\<forall>t\<in>set (sim_timers s). \<forall>k. callback t = Tick k \<longrightarrow>
        busy s \<and> handle t \<in> set (intervalsRef s) \<and> progress s = pct k
        \<and> (\<forall>u\<in>set (sim_timers s). is_tick u \<longrightarrow> u = t))
     \<and> (\<forall>t\<in>set (sim_timers s). is_complete t \<longrightarrow>
        busy s \<and> delay t = 9000 \<and> \<not> repeating t \<and> handle t \<in> set (timersRef s)
        \<and> (\<forall>u\<in>set (sim_timers s). is_complete u \<longrightarrow> u = t))"

text \<open>What the state cells say while a submission runs, and while none does.\<close>

definition cells_ok :: "sim_state \<Rightarrow> bool" where
  "cells_ok s \<longleftrightarrow>
     (busy s \<longrightarrow> resultUrl s = None \<and> status s \<noteq> Some ''COMPLETED'' \<and> progress s \<le> 96)
     \<and> (\<not> busy s \<longrightarrow>
          (status s = Some ''COMPLETED'' \<longleftrightarrow> resultUrl s \<noteq> None)
          \<and> (progress s = 100 \<longleftrightarrow> status s = Some ''COMPLETED'')
          \<and> progress s \<le> 100
          \<and> (status s = Some ''COMPLETED'' \<longrightarrow>
                (\<exists>ident. resultUrl s = Some (createObjectURL ident))
                \<and> (\<exists>nm r. resultData s = Some (mock_result nm r))))"

definition sim_inv :: "sim_state \<Rightarrow> bool" where
  "sim_inv s \<longleftrightarrow> handles_ok (sim_timers s) (sim_ticket s) \<and> timers_ok s \<and> cells_ok s"

definition is_start :: "sim_event \<Rightarrow> bool" where
  "is_start e = (case e of SimClickStart now rnd \<Rightarrow> True | _ \<Rightarrow> False)"

subsection \<open>Invariants and observations of the live driver\<close>

definition is_poll :: "live_callback timer \<Rightarrow> bool" where
  "is_poll t = (case callback t of PollTick ident \<Rightarrow> True | Grace ident \<Rightarrow> False)"

definition is_grace :: "live_callback timer \<Rightarrow> bool" where
  "is_grace t = (case callback t of Grace ident \<Rightarrow> True | PollTick ident \<Rightarrow> False)"

text \<open>
  The only interval is the one \<open>pollRef\<close> names, with its period of 2500 ms; a grace
  timer is a timeout of 800 ms.
\<close>

definition live_inv :: "live_state \<Rightarrow> bool" where
  "live_inv s \<longleftrightarrow>
     (\<forall>t\<in>set (live_timers s). is_poll t \<longrightarrow>
        pollRef s = Some (handle t) \<and> delay t = 2500 \<and> repeating t)
     \<and> (\<forall>t\<in>set (live_timers s). is_grace t \<longrightarrow> delay t = 800 \<and> \<not> repeating t)"

text \<open>The calls of \<open>start\<close> that are suspended, as opposed to those of \<open>getJob\<close>.\<close>

definition is_submission_call :: "pending_call \<Rightarrow> bool" where
  "is_submission_call k =
     (case k of AwaitCreate ct f \<Rightarrow> True | AwaitUpload ident \<Rightarrow> True
      | AwaitStart ident \<Rightarrow> True | _ \<Rightarrow> False)"

text \<open>
  A submission sequence is in flight while a call of \<open>start\<close> is suspended on a response
  or on its grace delay.
\<close>

definition submission_in_flight :: "live_state \<Rightarrow> bool" where
  "submission_in_flight s \<longleftrightarrow>
     list_ex (\<lambda>p. is_submission_call (snd p)) (inflight s) \<or> list_ex is_grace (live_timers s)"

definition is_click_start :: "live_event \<Rightarrow> bool" where
  "is_click_start e = (case e of ClickStart \<Rightarrow> True | _ \<Rightarrow> False)"

text \<open>
  The ways a status query fails: no response at all, a status code outside 200..299
  other than 404, or a body that is not JSON.
\<close>

definition query_fails :: "job_json reply \<Rightarrow> bool" where
  "query_fails r =
     (case r of
        Rejected msg \<Rightarrow> True
      | Response code b \<Rightarrow>
          code \<noteq> 404 \<and> (\<not> ok code \<or> (case b of Unparsable msg \<Rightarrow> True | Json d \<Rightarrow> False)))"

text \<open>No timer is pending and no call of \<open>start\<close> is suspended.\<close>

definition poll_only :: "live_state \<Rightarrow> bool" where
  "poll_only s \<longleftrightarrow>
     live_timers s = [] \<and> list_all (\<lambda>p. \<not> is_submission_call (snd p)) (inflight s)"

section \<open>The extension check and the picker\<close>

lemma canon_eq_iff: "canonicalize x = canonicalize y \<longleftrightarrow> to_lower x = to_lower y"
proof -
  have x: "(of_char x :: nat) < 256" and y: "(of_char y :: nat) < 256" by simp_all
  show ?thesis
    unfolding canonicalize_def to_lower_def Let_def
    using x y
    by (auto simp: char_of_eq_iff of_char_eq_iff[symmetric, where ?'a = nat] simp del: of_char_eq_iff)
qed

lemma regex_test_suffix: "regex_test r s \<longleftrightarrow> (\<exists>t. suffix t s \<and> rmatch r t \<noteq> [])"
  by (induction s) (auto simp: suffix_Cons)

lemma to_lower_pat [simp]:
  "to_lower CHR ''.'' = CHR ''.''" "to_lower CHR ''h'' = CHR ''h''" "to_lower CHR ''t'' = CHR ''t''"
  "to_lower CHR ''m'' = CHR ''m''" "to_lower CHR ''l'' = CHR ''l''" "to_lower CHR ''x'' = CHR ''x''"
  by (simp_all add: to_lower_def)

lemma rmatch_Seq_Chr:
  "rmatch (Seq (Chr a) r) s =
     (case s of [] \<Rightarrow> [] | x # xs \<Rightarrow> if to_lower x = to_lower a then rmatch r xs else [])"
  by (simp add: canon_eq_iff split: list.splits)

lemma opt_l_eoi:
  "rmatch (Seq (Opt (Chr CHR ''l'')) Eoi) s \<noteq> [] \<longleftrightarrow> map to_lower s \<in> {[], ''l''}"
  by (auto simp: canon_eq_iff split: list.splits if_splits)

lemma rmatch_Seq_assoc: "rmatch (Seq (Seq a b) c) s = rmatch (Seq a (Seq b c)) s"
proof -
  have "concat (map (rmatch c) (concat (map (rmatch b) xs))) =
        concat (map (\<lambda>x. concat (map (rmatch c) (rmatch b x))) xs)" for xs
    by (induction xs) simp_all
  moreover have "rmatch (Seq b c) = (\<lambda>x. concat (map (rmatch c) (rmatch b x)))"
    by (rule ext) simp
  ultimately show ?thesis by simp
qed

lemma rmatch_Seq_Alt: "rmatch (Seq (Alt a b) c) s = rmatch (Seq a c) s @ rmatch (Seq b c) s"
  by simp

lemma htm_branch:
  "rmatch (Seq (Chr CHR ''h'') (Seq (Chr CHR ''t'') (Seq (Chr CHR ''m'') (Seq (Opt (Chr CHR ''l'')) Eoi)))) s \<noteq> []
     \<longleftrightarrow> map to_lower s \<in> {''htm'', ''html''}"
  by (auto simp: rmatch_Seq_Chr opt_l_eoi simp del: rmatch.simps split: list.splits)

lemma xml_branch:
  "rmatch (Seq (Chr CHR ''x'') (Seq (Chr CHR ''m'') (Seq (Chr CHR ''l'') Eoi))) s \<noteq> []
     \<longleftrightarrow> map to_lower s = ''xml''"
  by (auto simp: rmatch_Seq_Chr simp del: rmatch.simps(2) split: list.splits)

lemma allowed_re_match:
  "rmatch allowed_re t \<noteq> [] \<longleftrightarrow> map to_lower t \<in> {''.htm'', ''.html'', ''.xml''}"
proof -
  have "rmatch allowed_re t =
     (case t of [] \<Rightarrow> [] | x # xs \<Rightarrow> if to_lower x = CHR ''.'' then
        rmatch (Seq (Chr CHR ''h'') (Seq (Chr CHR ''t'') (Seq (Chr CHR ''m'') (Seq (Opt (Chr CHR ''l'')) Eoi)))) xs
        @ rmatch (Seq (Chr CHR ''x'') (Seq (Chr CHR ''m'') (Seq (Chr CHR ''l'') Eoi))) xs else [])"
    unfolding allowed_re_def
    by (simp add: rmatch_Seq_Chr rmatch_Seq_Alt rmatch_Seq_assoc del: rmatch.simps split: list.splits)
  then show ?thesis
    using htm_branch xml_branch
    by (auto split: list.splits)
qed

lemma suffix_map_iff: "suffix e (map f s) \<longleftrightarrow> (\<exists>t. suffix t s \<and> map f t = e)"
  by (auto simp: suffix_def map_eq_append_conv)

lemma regex_test_allowed: "regex_test allowed_re nm \<longleftrightarrow> spec_accepts_name nm"
  unfolding regex_test_suffix allowed_re_match spec_accepts_name_def
  by (auto simp: suffix_map_iff)

lemma isAllowed_None: "\<not> isAllowed None"
  by (simp add: isAllowed_def)

lemma brief_pdf_rejected: "\<not> isAllowed (Some brief_pdf)"
  by code_simp

lemma law_html_accepted: "isAllowed (Some law_html)"
  by code_simp

text \<open>
  C3. The validator accepts a candidate exactly when there is a file and its name, in
  lower case, ends in \<open>.htm\<close>, \<open>.html\<close> or \<open>.xml\<close>; two files of the same name get the same
  verdict whatever their content, type and size; and a rejected candidate leaves the
  fixed message in \<open>error\<close> while no job id is assigned, no request is sent and no timer
  is armed, in either driver.
\<close>

theorem validator_accepts_by_extension_only:
  fixes s :: live_state and d :: sim_state
  shows "(isAllowed f \<longleftrightarrow> (\<exists>x. f = Some x \<and> spec_accepts_name (file_name x)))
    \<and> (file_name x = file_name y \<longrightarrow> isAllowed (Some x) = isAllowed (Some y))
    \<and> (\<not> isAllowed f \<longrightarrow>
         error (pick f s) = Some ''Only .html or .xml files are accepted.''
         \<and> jobId (pick f s) = jobId s \<and> status (pick f s) = status s
         \<and> inflight (pick f s) = inflight s \<and> queries (pick f s) = queries s
         \<and> live_timers (pick f s) = live_timers s
         \<and> error (pick f d) = Some ''Only .html or .xml files are accepted.''
         \<and> jobId (pick f d) = jobId d \<and> status (pick f d) = status d
         \<and> sim_timers (pick f d) = sim_timers d)"
  by (cases f) (simp_all add: isAllowed_def regex_test_allowed pick_def)

theorem validator_accepts_by_extension_only_witness:
  "\<not> isAllowed (Some brief_pdf)
   \<and> file_name brief_pdf = file_name (brief_pdf\<lparr>file_body := ''<html>''\<rparr>)
   \<and> \<not> isAllowed (Some (brief_pdf\<lparr>file_body := ''<html>''\<rparr>))
   \<and> error (pick (Some brief_pdf) live_init) = Some ''Only .html or .xml files are accepted.''
   \<and> jobId (pick (Some brief_pdf) live_init) = None
   \<and> inflight (pick (Some brief_pdf) live_init) = []
   \<and> jobId (pick (Some brief_pdf) sim_init) = None"
  using validator_accepts_by_extension_only
          [of "Some brief_pdf" brief_pdf "brief_pdf\<lparr>file_body := ''<html>''\<rparr>" live_init sim_init]
        brief_pdf_rejected
  by (simp add: live_init_def sim_init_def)

text \<open>
  C10. A candidate that fails the check, and so also no candidate at all, leaves no file
  selected and the fixed message in \<open>error\<close>, whatever was selected before; the \<open>Start\<close>
  button then does nothing, and \<open>start\<close> itself, called all the same, stops at the
  missing file without sending a request or arming a timer.
\<close>

theorem rejected_pick_clears_selection:
  fixes s :: live_state and d :: sim_state
  assumes "\<not> isAllowed f"
  shows "chosen_file (pick f s) = None
    \<and> error (pick f s) = Some ''Only .html or .xml files are accepted.''
    \<and> live_step (pick f s) ClickStart = pick f s
    \<and> inflight (live_start (pick f s)) = inflight s
    \<and> chosen_file (pick f d) = None
    \<and> error (pick f d) = Some ''Only .html or .xml files are accepted.''
    \<and> sim_step (pick f d) (SimClickStart now rnd) = pick f d
    \<and> sim_timers (sim_start now rnd (pick f d)) = sim_timers d
    \<and> chosen_file (pick None s) = None \<and> chosen_file (pick None d) = None"
  using assms by (simp add: pick_def live_start_def sim_start_def isAllowed_None)

theorem rejected_pick_clears_selection_witness:
  "isAllowed (Some law_html)
   \<and> chosen_file (pick (Some law_html) live_init) = Some law_html
   \<and> \<not> isAllowed (Some brief_pdf)
   \<and> chosen_file (pick (Some brief_pdf) (pick (Some law_html) live_init)) = None
   \<and> chosen_file (pick (Some brief_pdf) (pick (Some law_html) sim_init)) = None
   \<and> live_step (pick (Some brief_pdf) (pick (Some law_html) live_init)) ClickStart
       = pick (Some brief_pdf) (pick (Some law_html) live_init)"
  using rejected_pick_clears_selection
          [of "Some brief_pdf" "pick (Some law_html) live_init" "pick (Some law_html) sim_init"]
        brief_pdf_rejected law_html_accepted
  by (simp add: pick_def)

section \<open>Job identifiers of the simulated driver\<close>

lemma digit_char_inj: "d < 36 \<Longrightarrow> e < 36 \<Longrightarrow> digit_char d = digit_char e \<Longrightarrow> d = e"
proof -
  have "distinct ''0123456789abcdefghijklmnopqrstuvwxyz''" by simp
  moreover have "length ''0123456789abcdefghijklmnopqrstuvwxyz'' = 36" by simp
  ultimately show "d < 36 \<Longrightarrow> e < 36 \<Longrightarrow> digit_char d = digit_char e \<Longrightarrow> d = e"
    unfolding digit_char_def by (metis nth_eq_iff_index_eq)
qed

lemma digit_char_not_dash: "d < 36 \<Longrightarrow> digit_char d \<noteq> CHR ''-''"
proof -
  have "CHR ''-'' \<notin> set ''0123456789abcdefghijklmnopqrstuvwxyz''" by simp
  moreover have "length ''0123456789abcdefghijklmnopqrstuvwxyz'' = 36" by simp
  ultimately show "d < 36 \<Longrightarrow> digit_char d \<noteq> CHR ''-''"
    unfolding digit_char_def by (metis nth_mem)
qed

lemma toString36_unfold:
  "toString_radix 36 n =
     (if n < 36 then [digit_char n] else toString_radix 36 (n div 36) @ [digit_char (n mod 36)])"
  by (subst toString_radix.simps) (simp only: numeral_less_iff numeral_eq_iff, simp)

lemma toString36_nonempty: "toString_radix 36 n \<noteq> []"
  by (subst toString36_unfold) simp

lemma toString36_no_dash: "CHR ''-'' \<notin> set (toString_radix 36 n)"
proof (induction n rule: less_induct)
  case (less n)
  show ?case
  proof (cases "n < 36")
    case True
    then show ?thesis
      using digit_char_not_dash [of n] by (subst toString36_unfold) simp
  next
    case False
    then have "n div 36 < n" by simp
    then have "CHR ''-'' \<notin> set (toString_radix 36 (n div 36))" by (rule less.IH)
    moreover have "digit_char (n mod 36) \<noteq> CHR ''-''"
      by (rule digit_char_not_dash) simp
    ultimately show ?thesis
      using False by (subst toString36_unfold) auto
  qed
qed

lemma toString36_inj: "toString_radix 36 a = toString_radix 36 b \<Longrightarrow> a = b"
proof (induction a arbitrary: b rule: less_induct)
  case (less a)
  show ?case
  proof (cases "a < 36")
    case a: True
    show ?thesis
    proof (cases "b < 36")
      case True
      with a less.prems show ?thesis
        using digit_char_inj [of a b]
        by (simp add: toString36_unfold [of a] toString36_unfold [of b])
    next
      case False
      with a less.prems toString36_nonempty [of "b div 36"] show ?thesis
        by (simp add: toString36_unfold [of a] toString36_unfold [of b])
    qed
  next
    case a: False
    show ?thesis
    proof (cases "b < 36")
      case True
      with a less.prems toString36_nonempty [of "a div 36"] show ?thesis
        by (simp add: toString36_unfold [of a] toString36_unfold [of b])
    next
      case False
      with a less.prems
      have hi: "toString_radix 36 (a div 36) = toString_radix 36 (b div 36)"
        and lo: "digit_char (a mod 36) = digit_char (b mod 36)"
        by (simp_all add: toString36_unfold [of a] toString36_unfold [of b])
      from a have "a div 36 < a" by simp
      then have "a div 36 = b div 36" using hi by (rule less.IH)
      moreover have "a mod 36 = b mod 36"
        using lo by (intro digit_char_inj) simp_all
      ultimately show ?thesis
        by (metis div_mult_mod_eq)
    qed
  qed
qed

lemma split_at_first:
  "c \<notin> set a \<Longrightarrow> c \<notin> set b \<Longrightarrow> a @ c # x = b @ c # y \<longleftrightarrow> a = b \<and> x = y"
proof (induction a arbitrary: b)
  case Nil
  then show ?case by (cases b) auto
next
  case (Cons h t)
  then show ?case by (cases b) auto
qed

lemma make_job_id_eq_iff:
  "make_job_id n1 r1 = make_job_id n2 r2 \<longleftrightarrow> n1 = n2 \<and> slice 2 8 r1 = slice 2 8 r2"
proof -
  have "toString_radix 36 n1 @ CHR ''-'' # slice 2 8 r1 = toString_radix 36 n2 @ CHR ''-'' # slice 2 8 r2
        \<longleftrightarrow> toString_radix 36 n1 = toString_radix 36 n2 \<and> slice 2 8 r1 = slice 2 8 r2"
    by (rule split_at_first) (rule toString36_no_dash)+
  then show ?thesis
    unfolding make_job_id_def using toString36_inj by auto
qed

text \<open>
  C8, as the code has it. The simulated driver builds the job id from the clock reading
  and six characters of a random draw, and keeps no list of the ids it has issued: two
  submissions get the same id exactly when their clock readings are equal and the
  slices of their random draws are equal, so the ids differ whenever the two readings
  of the clock differ.
\<close>

theorem job_ids_differ_iff_clock_or_draw_differs:
  "jobId (sim_start now rnd d) = (if chosen_file d = None then jobId d else Some (make_job_id now rnd))
   \<and> (make_job_id n1 r1 \<noteq> make_job_id n2 r2 \<longleftrightarrow> n1 \<noteq> n2 \<or> slice 2 8 r1 \<noteq> slice 2 8 r2)"
  by (auto simp: make_job_id_eq_iff sim_start_def sim_setTimer_def Let_def split: option.splits)

theorem job_ids_differ_iff_clock_or_draw_differs_witness:
  "(1762086000000 :: nat) \<noteq> 1762086000001
   \<and> make_job_id 1762086000000 ''0.4fzyo82mvyr'' \<noteq> make_job_id 1762086000001 ''0.4fzyo82mvyr''
   \<and> jobId (sim_start 1762086000000 ''0.4fzyo82mvyr'' (pick (Some law_html) sim_init))
       = Some (make_job_id 1762086000000 ''0.4fzyo82mvyr'')"
  using job_ids_differ_iff_clock_or_draw_differs
          [of 1762086000000 "''0.4fzyo82mvyr''" "pick (Some law_html) sim_init"
              1762086000000 "''0.4fzyo82mvyr''" 1762086000001 "''0.4fzyo82mvyr''"]
        law_html_accepted
  by (simp add: pick_def)

text \<open>
  C8, as stated, fails: a submission that is cancelled and started again within the same
  millisecond, with two draws that agree on the six characters kept, gets the id of the
  first one.
\<close>

theorem job_id_reused_counterexample:
  "jobId (sim_run [SimPick (Some law_html), SimClickStart 1762086000000 ''0.4fzyo82mvyr''])
     = Some ''JOB-mhhoib9c-4fzyo8''
   \<and> jobId (sim_run [SimPick (Some law_html), SimClickStart 1762086000000 ''0.4fzyo82mvyr'',
                     SimClickCancel, SimClickStart 1762086000000 ''0.4fzyo8qq1k7''])
     = Some ''JOB-mhhoib9c-4fzyo8''"
  by (simp add: sim_run_def sim_init_def pick_def law_html_accepted sim_start_def sim_setTimer_def
      sim_cancelPolling_def clearTimers_def make_job_id_def slice_def digit_char_def
      toString36_unfold)

section \<open>The simulated driver keeps its invariant\<close>

lemma set_clear_timer [simp]: "set (clear_timer h ts) = {t \<in> set ts. handle t \<noteq> h}"
  by (auto simp: clear_timer_def)

lemma set_clear_each [simp]: "set (clear_each hs ts) = {t \<in> set ts. handle t \<notin> set hs}"
  unfolding clear_each_def
  by (induction hs arbitrary: ts) auto

lemma set_rearm [simp]:
  "set (rearm h n ts) = (\<lambda>t. if handle t = h then t\<lparr>seq := n\<rparr> else t) ` set ts"
  by (simp add: rearm_def)

lemma find_timer_Some: "find_timer h ts = Some t \<Longrightarrow> t \<in> set ts \<and> handle t = h"
  by (auto simp: find_timer_def find_Some_iff)

lemma may_fire_iff: "may_fire t ts \<longleftrightarrow> (\<forall>u\<in>set ts. \<not> (seq u < seq t \<and> delay u \<le> delay t))"
  by (simp add: may_fire_def list_all_iff)

lemma pct_le_96: "pct k \<le> 96"
  by (simp add: pct_def)

lemma pct_mono: "pct k \<le> pct (Suc k)"
  unfolding pct_def js_round_div_def
  by (intro min.mono div_le_mono) simp_all

lemma pct_0: "pct 0 = 0"
  by (simp add: pct_def js_round_div_def ticks_def totalMs_def tickMs_def)

lemma sim_inv_init: "sim_inv sim_init"
  by (simp add: sim_inv_def handles_ok_def timers_ok_def cells_ok_def sim_init_def)

lemma sim_inv_pick: "sim_inv s \<Longrightarrow> sim_inv (pick f s)"
  by (simp add: sim_inv_def handles_ok_def timers_ok_def cells_ok_def pick_def)

lemma sim_inv_risk: "sim_inv s \<Longrightarrow> sim_inv (s\<lparr>risk := r\<rparr>)"
  by (simp add: sim_inv_def handles_ok_def timers_ok_def cells_ok_def)

lemma idle_only_confetti:
  assumes "timers_ok s" "\<not> busy s" "t \<in> set (sim_timers s)"
  shows "callback t = ConfettiOff"
  using assms unfolding timers_ok_def is_tick_def is_complete_def
  by (cases "callback t") auto

lemma sim_start_unfold:
  "chosen_file s = Some f \<Longrightarrow>
   sim_start now rnd s =
     s\<lparr>error := None, resultUrl := None, resultData := None, showConfetti := False,
       progress := 0, busy := True, status := Some ''PENDING'',
       jobId := Some (make_job_id now rnd),
       sim_timers := sim_timers s @
         [new_timer (sim_ticket s) False ToRunning 900,
          new_timer (Suc (sim_ticket s)) True (Tick 0) tickMs,
          new_timer (Suc (Suc (sim_ticket s))) False (ToComplete (file_name f) (risk s)) totalMs],
       sim_ticket := Suc (Suc (Suc (sim_ticket s))),
       timersRef := timersRef s @ [sim_ticket s, Suc (Suc (sim_ticket s))],
       intervalsRef := intervalsRef s @ [Suc (sim_ticket s)]\<rparr>"
  by (simp add: sim_start_def sim_setTimer_def Let_def)

lemma sim_inv_start:
  assumes "sim_inv s" "\<not> busy s" "chosen_file s = Some f"
  shows "sim_inv (sim_start now rnd s)"
proof -
  from assms have none: "\<forall>t\<in>set (sim_timers s). callback t = ConfettiOff"
    using idle_only_confetti by (auto simp: sim_inv_def)
  from assms have h: "handles_ok (sim_timers s) (sim_ticket s)"
    by (simp add: sim_inv_def)
  have 1: "handles_ok (sim_timers (sim_start now rnd s)) (sim_ticket (sim_start now rnd s))"
    using h unfolding sim_start_unfold [OF assms(3)] handles_ok_def
    by (auto simp: new_timer_def)
  have 2: "timers_ok (sim_start now rnd s)"
    using none unfolding sim_start_unfold [OF assms(3)] timers_ok_def
    by (auto simp: new_timer_def is_tick_def is_complete_def pct_0 totalMs_def)
  have 3: "cells_ok (sim_start now rnd s)"
    unfolding sim_start_unfold [OF assms(3)] cells_ok_def by simp
  from 1 2 3 show ?thesis by (simp add: sim_inv_def)
qed

lemma sim_inv_cancel:
  assumes "sim_inv s" "busy s"
  shows "sim_inv (sim_cancelPolling s)"
proof -
  have 1: "handles_ok (sim_timers (sim_cancelPolling s)) (sim_ticket (sim_cancelPolling s))"
    using assms unfolding sim_inv_def handles_ok_def sim_cancelPolling_def clearTimers_def
    by auto
  have 2: "timers_ok (sim_cancelPolling s)"
    using assms unfolding sim_inv_def timers_ok_def sim_cancelPolling_def clearTimers_def
    by auto
  have 3: "cells_ok (sim_cancelPolling s)"
    using assms unfolding sim_inv_def cells_ok_def sim_cancelPolling_def clearTimers_def
    by auto
  from 1 2 3 show ?thesis by (simp add: sim_inv_def)
qed

lemma sim_fire_unfold:
  assumes "find_timer h (sim_timers s) = Some t" "may_fire t (sim_timers s)"
  shows "sim_fire h ident s =
     sim_callback_run h ident (callback t)
       (s\<lparr>sim_timers := (if repeating t then rearm h (sim_ticket s) (sim_timers s)
                          else clear_timer h (sim_timers s)),
          sim_ticket := Suc (sim_ticket s)\<rparr>)"
  using assms by (simp add: sim_fire_def)

lemma sim_fire_idle:
  "find_timer h (sim_timers s) = None \<or>
   (\<exists>t. find_timer h (sim_timers s) = Some t \<and> \<not> may_fire t (sim_timers s))
   \<Longrightarrow> sim_fire h ident s = s"
  by (auto simp: sim_fire_def)

lemma handles_ok_after_fire:
  assumes "handles_ok ts n"
  shows "handles_ok (if rep then rearm h n ts else clear_timer h ts) (Suc n)"
  using assms unfolding handles_ok_def
  by (auto simp: less_Suc_eq)

lemma sim_inv_fire_confetti:
  assumes inv: "sim_inv s" and f: "find_timer h (sim_timers s) = Some t"
    and m: "may_fire t (sim_timers s)" and cb: "callback t = ConfettiOff"
  shows "sim_inv (sim_fire h ident s)"
proof -
  let ?s = "sim_fire h ident s"
  have eq: "?s = s\<lparr>sim_timers := (if repeating t then rearm h (sim_ticket s) (sim_timers s)
                          else clear_timer h (sim_timers s)),
          sim_ticket := Suc (sim_ticket s), showConfetti := False\<rparr>"
    by (simp add: sim_fire_unfold [OF f m] cb)
  have 1: "handles_ok (sim_timers ?s) (sim_ticket ?s)"
    using inv handles_ok_after_fire [of "sim_timers s" "sim_ticket s" "repeating t" h]
    by (simp add: eq sim_inv_def)
  from inv have u: "\<forall>a\<in>set (sim_timers s). handle a = h \<longrightarrow> a = t"
    using find_timer_Some [OF f] by (auto simp: sim_inv_def handles_ok_def)
  have 2: "timers_ok ?s"
    using inv u cb unfolding eq sim_inv_def timers_ok_def is_tick_def is_complete_def
    by (auto split: if_splits)
  have 3: "cells_ok ?s"
    using inv unfolding eq sim_inv_def cells_ok_def by simp
  from 1 2 3 show ?thesis by (simp add: sim_inv_def)
qed

lemma sim_inv_fire_running:
  assumes inv: "sim_inv s" and f: "find_timer h (sim_timers s) = Some t"
    and m: "may_fire t (sim_timers s)" and cb: "callback t = ToRunning"
  shows "sim_inv (sim_fire h ident s)"
proof -
  let ?s = "sim_fire h ident s"
  from inv cb have nr: "\<not> repeating t" and b: "busy s"
    using find_timer_Some [OF f] by (auto simp: sim_inv_def timers_ok_def)
  have eq: "?s = s\<lparr>sim_timers := clear_timer h (sim_timers s),
          sim_ticket := Suc (sim_ticket s), status := Some ''RUNNING''\<rparr>"
    by (simp add: sim_fire_unfold [OF f m] cb nr)
  have 1: "handles_ok (sim_timers ?s) (sim_ticket ?s)"
    using inv handles_ok_after_fire [of "sim_timers s" "sim_ticket s" False h]
    by (simp add: eq sim_inv_def)
  have 2: "timers_ok ?s"
    using inv unfolding eq sim_inv_def timers_ok_def
    by auto
  have 3: "cells_ok ?s"
    using inv b unfolding eq sim_inv_def cells_ok_def by simp
  from 1 2 3 show ?thesis by (simp add: sim_inv_def)
qed

lemma bump_rearm_elem:
  assumes u: "\<forall>a\<in>set ts. handle a = handle t \<longrightarrow> a = t" and "a \<in> set ts"
  shows "((\<lambda>a. if handle a = handle t then a\<lparr>callback := cb\<rparr> else a) \<circ>
          (\<lambda>x. if handle x = handle t then x\<lparr>seq := n\<rparr> else x)) a
        = (if a = t then t\<lparr>seq := n, callback := cb\<rparr> else a)"
proof (cases "a = t")
  case True
  then show ?thesis by simp
next
  case False
  with assms have "handle a \<noteq> handle t" by blast
  with False show ?thesis by simp
qed

lemma image_replace:
  "t \<in> A \<Longrightarrow> (\<lambda>a. if a = t then t' else a) ` A = {t'} \<union> {a \<in> A. a \<noteq> t}"
  by auto

lemma tick_table:
  assumes u: "\<forall>a\<in>set ts. handle a = handle t \<longrightarrow> a = t" and tin: "t \<in> set ts"
  shows "set (map (\<lambda>a. if handle a = handle t then a\<lparr>callback := cb\<rparr> else a)
              (if rep then rearm (handle t) n ts else clear_timer (handle t) ts))
         = (if rep then {t\<lparr>seq := n, callback := cb\<rparr>} else {}) \<union> {a \<in> set ts. a \<noteq> t}"
proof (cases rep)
  case True
  have "map (\<lambda>a. if handle a = handle t then a\<lparr>callback := cb\<rparr> else a) (rearm (handle t) n ts)
        = map (\<lambda>a. if a = t then t\<lparr>seq := n, callback := cb\<rparr> else a) ts"
    unfolding rearm_def map_map
    by (rule map_cong [OF refl]) (rule bump_rearm_elem [OF u])
  then have "set (map (\<lambda>a. if handle a = handle t then a\<lparr>callback := cb\<rparr> else a)
                   (rearm (handle t) n ts))
      = (\<lambda>a. if a = t then t\<lparr>seq := n, callback := cb\<rparr> else a) ` set ts"
    by (simp only: set_map)
  also have "\<dots> = {t\<lparr>seq := n, callback := cb\<rparr>} \<union> {a \<in> set ts. a \<noteq> t}"
    using tin by (rule image_replace)
  finally show ?thesis using True by (simp only: if_True)
next
  case False
  have "\<And>a. a \<in> set ts \<Longrightarrow> (handle a \<noteq> handle t) = (a \<noteq> t)"
    using u by blast
  then have keep: "filter (\<lambda>a. handle a \<noteq> handle t) ts = filter (\<lambda>a. a \<noteq> t) ts"
    by (rule filter_cong [OF refl])
  have "map (\<lambda>a. if handle a = handle t then a\<lparr>callback := cb\<rparr> else a) (clear_timer (handle t) ts)
        = clear_timer (handle t) ts"
    unfolding clear_timer_def by (rule map_idI) simp
  then show ?thesis
    using False keep by (simp add: clear_timer_def)
qed

lemma is_tick_Tick: "callback x = Tick j \<Longrightarrow> is_tick x"
  by (simp add: is_tick_def)

lemma sim_inv_fire_tick:
  assumes inv: "sim_inv s" and f: "find_timer h (sim_timers s) = Some t"
    and m: "may_fire t (sim_timers s)" and cb: "callback t = Tick k"
  shows "sim_inv (sim_fire h ident s)"
proof -
  define s' where "s' = sim_fire h ident s"
  define t' where "t' = t\<lparr>seq := sim_ticket s, callback := Tick (k + 1)\<rparr>"
  have tin: "t \<in> set (sim_timers s)" and th: "h = handle t"
    using find_timer_Some [OF f] by simp_all
  have ok: "handles_ok (sim_timers s) (sim_ticket s)" "timers_ok s" "cells_ok s"
    using inv by (simp_all add: sim_inv_def)
  have lt: "\<forall>a\<in>set (sim_timers s). handle a < sim_ticket s"
    and u: "\<forall>a\<in>set (sim_timers s). handle a = handle t \<longrightarrow> a = t"
    using ok(1) tin unfolding handles_ok_def by blast+
  have oldA: "\<forall>x\<in>set (sim_timers s). callback x = ToRunning \<longrightarrow>
        busy s \<and> delay x = 900 \<and> \<not> repeating x \<and> handle x \<in> set (timersRef s)
        \<and> (\<forall>y\<in>set (sim_timers s). is_complete y \<longrightarrow> seq x < seq y)"
    and oldB: "\<forall>x\<in>set (sim_timers s). \<forall>j. callback x = Tick j \<longrightarrow>
        busy s \<and> handle x \<in> set (intervalsRef s) \<and> progress s = pct j
        \<and> (\<forall>y\<in>set (sim_timers s). is_tick y \<longrightarrow> y = x)"
    and oldC: "\<forall>x\<in>set (sim_timers s). is_complete x \<longrightarrow>
        busy s \<and> delay x = 9000 \<and> \<not> repeating x \<and> handle x \<in> set (timersRef s)
        \<and> (\<forall>y\<in>set (sim_timers s). is_complete y \<longrightarrow> y = x)"
    using ok(2) unfolding timers_ok_def by blast+
  from oldB cb tin have b: "busy s" and tref: "handle t \<in> set (intervalsRef s)"
    and only: "\<forall>a\<in>set (sim_timers s). is_tick a \<longrightarrow> a = t"
    by blast+
  have eq: "s' = s\<lparr>sim_timers :=
              map (\<lambda>a. if handle a = handle t then a\<lparr>callback := Tick (k + 1)\<rparr> else a)
                (if repeating t then rearm (handle t) (sim_ticket s) (sim_timers s)
                 else clear_timer (handle t) (sim_timers s)),
          sim_ticket := Suc (sim_ticket s), progress := pct (k + 1)\<rparr>"
  proof -
    from f th have f': "find_timer (handle t) (sim_timers s) = Some t" by simp
    show ?thesis
      unfolding s'_def th sim_fire_unfold [OF f' m] cb by simp
  qed
  have "set (sim_timers s') =
      (if repeating t then {t'} else {}) \<union> {a \<in> set (sim_timers s). a \<noteq> t}"
    unfolding t'_def using tick_table [OF u tin] by (simp add: eq)
  then have sub: "\<forall>x\<in>set (sim_timers s'). x = t' \<or> (x \<in> set (sim_timers s) \<and> x \<noteq> t)"
    by (auto split: if_splits)
  have cells: "busy s' = busy s" "timersRef s' = timersRef s" "intervalsRef s' = intervalsRef s"
    "progress s' = pct (k + 1)" "sim_ticket s' = Suc (sim_ticket s)"
    "resultUrl s' = resultUrl s" "status s' = status s" "resultData s' = resultData s"
    by (simp_all add: eq)
  have t'h: "handle t' = handle t" and t'cb: "callback t' = Tick (k + 1)"
    and t'tick: "is_tick t'" and t'nc: "\<not> is_complete t'" and t'nr: "callback t' \<noteq> ToRunning"
    by (simp_all add: t'_def is_tick_def is_complete_def)
  have 1: "handles_ok (sim_timers s') (sim_ticket s')"
    unfolding handles_ok_def cells
  proof (intro conjI ballI impI)
    fix x assume "x \<in> set (sim_timers s')"
    with sub have "x = t' \<or> x \<in> set (sim_timers s)" by metis
    with lt tin t'h have "handle x < sim_ticket s" by auto
    then show "handle x < Suc (sim_ticket s)" by simp
  next
    fix x y assume "x \<in> set (sim_timers s')" "y \<in> set (sim_timers s')" "handle x = handle y"
    with sub t'h u ok(1) show "x = y"
      unfolding handles_ok_def by metis
  qed
  have 2: "timers_ok s'"
    unfolding timers_ok_def cells
  proof (intro conjI ballI impI allI)
    fix x assume x: "x \<in> set (sim_timers s')" and c: "callback x = ToRunning"
    with sub t'nr have xo: "x \<in> set (sim_timers s)" by metis
    with oldA c show "busy s" "delay x = 900" "\<not> repeating x" "handle x \<in> set (timersRef s)"
      by blast+
    fix y assume "y \<in> set (sim_timers s')" "is_complete y"
    with sub t'nc have "y \<in> set (sim_timers s)" by metis
    with oldA xo c \<open>is_complete y\<close> show "seq x < seq y" by blast
  next
    fix x j assume x: "x \<in> set (sim_timers s')" and c: "callback x = Tick j"
    then have "is_tick x" by (simp add: is_tick_Tick)
    with sub only x have xt: "x = t'" by metis
    show "busy s" by (rule b)
    show "handle x \<in> set (intervalsRef s)" using xt t'h tref by simp
    show "pct (k + 1) = pct j" using xt t'cb c by simp
    fix y assume "y \<in> set (sim_timers s')" "is_tick y"
    with sub only have "y = t'" by metis
    with xt show "y = x" by simp
  next
    fix x assume x: "x \<in> set (sim_timers s')" and c: "is_complete x"
    with sub t'nc have xo: "x \<in> set (sim_timers s)" by metis
    with oldC c show "busy s" "delay x = 9000" "\<not> repeating x" "handle x \<in> set (timersRef s)"
      by blast+
    fix y assume "y \<in> set (sim_timers s')" "is_complete y"
    with sub t'nc have "y \<in> set (sim_timers s)" by metis
    with oldC xo c \<open>is_complete y\<close> show "y = x" by blast
  qed
  have 3: "cells_ok s'"
    using ok(3) b pct_le_96 [of "k + 1"] unfolding cells_ok_def cells by simp
  from 1 2 3 show ?thesis by (simp add: sim_inv_def s'_def)
qed

lemma is_complete_ToComplete: "callback x = ToComplete nm r \<Longrightarrow> is_complete x"
  by (simp add: is_complete_def)

lemma callback_cases:
  "callback x = ConfettiOff \<or> callback x = ToRunning \<or> is_tick x \<or> is_complete x"
  by (cases "callback x") (simp_all add: is_tick_def is_complete_def)

lemma not_confetti:
  "callback x = ConfettiOff \<Longrightarrow> callback x \<noteq> ToRunning \<and> \<not> is_tick x \<and> \<not> is_complete x"
  by (simp add: is_tick_def is_complete_def)

text \<open>When \<open>toComplete\<close> may run, \<open>toRunning\<close> has run: it was armed earlier, for a shorter delay.\<close>

lemma complete_after_running:
  assumes ok: "timers_ok s" and tin: "t \<in> set (sim_timers s)" and c: "is_complete t"
    and m: "may_fire t (sim_timers s)" and xin: "x \<in> set (sim_timers s)"
  shows "callback x \<noteq> ToRunning"
proof
  assume r: "callback x = ToRunning"
  from ok xin r tin c have "delay x = 900" "seq x < seq t"
    unfolding timers_ok_def by blast+
  moreover from ok tin c have "delay t = 9000"
    unfolding timers_ok_def by blast
  moreover from m xin have "\<not> (seq x < seq t \<and> delay x \<le> delay t)"
    unfolding may_fire_iff by blast
  ultimately show False by simp
qed

lemma sim_inv_fire_complete:
  assumes inv: "sim_inv s" and f: "find_timer h (sim_timers s) = Some t"
    and m: "may_fire t (sim_timers s)" and cb: "callback t = ToComplete nm r"
  shows "sim_inv (sim_fire h ident s)"
proof -
  define s' where "s' = sim_fire h ident s"
  define c where "c = new_timer (Suc (sim_ticket s)) False ConfettiOff 2500"
  have tin: "t \<in> set (sim_timers s)" and th: "h = handle t"
    using find_timer_Some [OF f] by simp_all
  have tc: "is_complete t" using cb by (rule is_complete_ToComplete)
  have ok: "handles_ok (sim_timers s) (sim_ticket s)" "timers_ok s" "cells_ok s"
    using inv by (simp_all add: sim_inv_def)
  have lt: "\<forall>a\<in>set (sim_timers s). handle a < sim_ticket s"
    and uniq: "\<forall>a\<in>set (sim_timers s). \<forall>b\<in>set (sim_timers s). handle a = handle b \<longrightarrow> a = b"
    using ok(1) unfolding handles_ok_def by blast+
  have oldB: "\<forall>x\<in>set (sim_timers s). is_tick x \<longrightarrow> handle x \<in> set (intervalsRef s)"
    using ok(2) unfolding timers_ok_def is_tick_def
    by (auto split: sim_callback.splits)
  have oldC: "\<forall>x\<in>set (sim_timers s). is_complete x \<longrightarrow> x = t"
    and nr: "\<not> repeating t"
    using ok(2) tin tc unfolding timers_ok_def by blast+
  have eq: "s' = s\<lparr>sim_timers :=
                clear_each (intervalsRef s) (clear_timer (handle t) (sim_timers s)) @ [c],
              sim_ticket := Suc (Suc (sim_ticket s)), intervalsRef := [],
              progress := 100, resultData := Some (mock_result nm r),
              resultUrl := Some (createObjectURL ident), status := Some ''COMPLETED'',
              busy := False, showConfetti := True,
              timersRef := timersRef s @ [Suc (sim_ticket s)]\<rparr>"
  proof -
    from f th have f': "find_timer (handle t) (sim_timers s) = Some t" by simp
    show ?thesis
      unfolding s'_def th sim_fire_unfold [OF f' m] cb c_def
      by (simp add: nr sim_setTimer_def Let_def)
  qed
  have sub: "\<forall>x\<in>set (sim_timers s'). x = c \<or>
      (x \<in> set (sim_timers s) \<and> handle x \<noteq> handle t \<and> handle x \<notin> set (intervalsRef s))"
    by (auto simp: eq)
  have c_facts: "callback c = ConfettiOff" "handle c = Suc (sim_ticket s)"
    by (simp_all add: c_def new_timer_def)
  have conf: "\<forall>x\<in>set (sim_timers s'). callback x = ConfettiOff"
  proof
    fix x assume "x \<in> set (sim_timers s')"
    with sub consider "x = c"
      | "x \<in> set (sim_timers s)" "handle x \<noteq> handle t" "handle x \<notin> set (intervalsRef s)"
      by metis
    then show "callback x = ConfettiOff"
    proof cases
      case 1
      then show ?thesis by (simp add: c_facts)
    next
      case 2
      from 2(1) have "callback x \<noteq> ToRunning"
        by (rule complete_after_running [OF ok(2) tin tc m])
      moreover from 2 oldB have "\<not> is_tick x" by blast
      moreover from 2 oldC have "\<not> is_complete x" by metis
      ultimately show ?thesis using callback_cases [of x] by blast
    qed
  qed
  have cells: "sim_ticket s' = Suc (Suc (sim_ticket s))" "\<not> busy s'"
    "status s' = Some ''COMPLETED''" "progress s' = 100"
    "resultUrl s' = Some (createObjectURL ident)" "resultData s' = Some (mock_result nm r)"
    by (simp_all add: eq)
  have 1: "handles_ok (sim_timers s') (sim_ticket s')"
    unfolding handles_ok_def cells
  proof (intro conjI ballI impI)
    fix x assume "x \<in> set (sim_timers s')"
    with sub have "x = c \<or> x \<in> set (sim_timers s)" by metis
    with lt c_facts(2) have "handle x < Suc (sim_ticket s) \<or> handle x = Suc (sim_ticket s)"
      by (auto simp: less_Suc_eq)
    then show "handle x < Suc (Suc (sim_ticket s))" by auto
  next
    fix x y assume x: "x \<in> set (sim_timers s')" and y: "y \<in> set (sim_timers s')"
      and e: "handle x = handle y"
    from x sub have x': "x = c \<or> x \<in> set (sim_timers s)" by metis
    from y sub have y': "y = c \<or> y \<in> set (sim_timers s)" by metis
    have ne: "\<And>a. a \<in> set (sim_timers s) \<Longrightarrow> handle a \<noteq> handle c"
      using lt c_facts(2) by fastforce
    from x' y' e ne uniq show "x = y" by metis
  qed
  have none: "callback x \<noteq> ToRunning \<and> \<not> is_tick x \<and> \<not> is_complete x"
    if "x \<in> set (sim_timers s')" for x
    using that conf not_confetti by blast
  have 2: "timers_ok s'"
    unfolding timers_ok_def
  proof (intro conjI ballI allI impI)
    fix x assume "x \<in> set (sim_timers s')" "callback x = ToRunning"
    with none have False by blast
    then show "busy s'" "delay x = 900" "\<not> repeating x" "handle x \<in> set (timersRef s')"
      "\<And>y. seq x < seq y" by blast+
  next
    fix x j assume "x \<in> set (sim_timers s')" "callback x = Tick j"
    with none is_tick_Tick have False by blast
    then show "busy s'" "handle x \<in> set (intervalsRef s')" "progress s' = pct j"
      "\<And>y. y = x" by blast+
  next
    fix x assume "x \<in> set (sim_timers s')" "is_complete x"
    with none have False by blast
    then show "busy s'" "delay x = 9000" "\<not> repeating x" "handle x \<in> set (timersRef s')"
      "\<And>y. y = x" by blast+
  qed
  have 3: "cells_ok s'"
    unfolding cells_ok_def using cells by auto
  from 1 2 3 show ?thesis by (simp add: sim_inv_def s'_def)
qed

lemma sim_inv_fire: "sim_inv s \<Longrightarrow> sim_inv (sim_fire h ident s)"
proof -
  assume inv: "sim_inv s"
  show ?thesis
  proof (cases "find_timer h (sim_timers s)")
    case None
    then show ?thesis using inv by (simp add: sim_fire_idle)
  next
    case (Some t)
    show ?thesis
    proof (cases "may_fire t (sim_timers s)")
      case False
      with Some inv show ?thesis by (simp add: sim_fire_idle)
    next
      case True
      show ?thesis
      proof (cases "callback t")
        case ToRunning
        then show ?thesis using inv Some True by (rule sim_inv_fire_running [rotated -1])
      next
        case (Tick k)
        then show ?thesis using inv Some True by (rule sim_inv_fire_tick [rotated -1])
      next
        case (ToComplete nm r)
        then show ?thesis using inv Some True by (rule sim_inv_fire_complete [rotated -1])
      next
        case ConfettiOff
        then show ?thesis using inv Some True by (rule sim_inv_fire_confetti [rotated -1])
      qed
    qed
  qed
qed

lemma sim_inv_step: "sim_inv s \<Longrightarrow> sim_inv (sim_step s e)"
proof (cases e)
  case (SimPick f)
  assume "sim_inv s" then show ?thesis using SimPick by (simp add: sim_inv_pick)
next
  case (SimSetRisk r)
  assume "sim_inv s" then show ?thesis using SimSetRisk by (simp add: sim_inv_risk)
next
  case (SimClickStart now rnd)
  assume "sim_inv s" then show ?thesis
    using SimClickStart by (cases "chosen_file s") (auto intro: sim_inv_start)
next
  case SimClickCancel
  assume "sim_inv s" then show ?thesis using SimClickCancel by (simp add: sim_inv_cancel)
next
  case (SimFire h ident)
  assume "sim_inv s" then show ?thesis using SimFire by (simp add: sim_inv_fire)
qed

lemma sim_inv_foldl: "sim_inv s \<Longrightarrow> sim_inv (foldl sim_step s es)"
  by (induction es arbitrary: s) (simp_all add: sim_inv_step)

lemma sim_inv_run: "sim_inv (sim_run es)"
  unfolding sim_run_def by (rule sim_inv_foldl [OF sim_inv_init])

section \<open>Progress of the simulated driver\<close>

lemma progress_fire:
  "progress (sim_fire h ident s) =
     (case find_timer h (sim_timers s) of
        None \<Rightarrow> progress s
      | Some t \<Rightarrow>
          if \<not> may_fire t (sim_timers s) then progress s
          else (case callback t of
                  Tick k \<Rightarrow> pct (k + 1)
                | ToComplete nm r \<Rightarrow> 100
                | _ \<Rightarrow> progress s))"
  by (simp add: sim_fire_def sim_setTimer_def Let_def split: option.splits sim_callback.splits)

lemma progress_cancel: "progress (sim_cancelPolling s) = progress s"
  by (simp add: sim_cancelPolling_def clearTimers_def)

lemma progress_pick: "progress (pick f (s :: sim_state)) = progress s"
  by (simp add: pick_def)

lemma progress_start: "progress (sim_start now rnd s) = 0"
  by (simp add: sim_start_def sim_setTimer_def Let_def split: option.splits)

lemma inv_progress_le_100: "sim_inv s \<Longrightarrow> progress s \<le> 100"
  unfolding sim_inv_def cells_ok_def by (cases "busy s") auto

lemma inv_tick_progress:
  assumes "sim_inv s" "t \<in> set (sim_timers s)" "callback t = Tick k"
  shows "progress s = pct k" "busy s" "progress s \<le> 96"
proof -
  from assms have ok: "timers_ok s" "cells_ok s" by (simp_all add: sim_inv_def)
  from ok(1) assms(2,3) show "progress s = pct k" "busy s"
    unfolding timers_ok_def by blast+
  with ok(2) show "progress s \<le> 96"
    unfolding cells_ok_def by blast
qed

lemma inv_progress_100:
  assumes "sim_inv s"
  shows "progress s = 100 \<longleftrightarrow> status s = Some ''COMPLETED''"
  using assms unfolding sim_inv_def cells_ok_def by (cases "busy s") auto

lemma inv_completed:
  assumes "sim_inv s" "status s = Some ''COMPLETED''"
  shows "\<not> busy s" "\<exists>nm r. resultData s = Some (mock_result nm r)"
    "\<exists>ident. resultUrl s = Some (createObjectURL ident)"
  using assms unfolding sim_inv_def cells_ok_def by blast+

lemma fire_monotone:
  assumes inv: "sim_inv s"
  shows "progress s \<le> progress (sim_fire h ident s)"
proof (cases "find_timer h (sim_timers s)")
  case None
  then show ?thesis by (simp add: progress_fire)
next
  case (Some t)
  then have tin: "t \<in> set (sim_timers s)" by (simp add: find_timer_Some)
  show ?thesis
  proof (cases "callback t")
    case (Tick k)
    with inv tin have "progress s = pct k" by (simp add: inv_tick_progress)
    with Some Tick pct_mono [of k] show ?thesis by (simp add: progress_fire)
  next
    case (ToComplete nm r)
    with Some inv_progress_le_100 [OF inv] show ?thesis by (simp add: progress_fire)
  qed (simp_all add: Some progress_fire)
qed

lemma step_monotone:
  assumes inv: "sim_inv s" and e: "\<not> is_start e"
  shows "progress s \<le> progress (sim_step s e)"
  using e by (cases e)
    (simp_all add: is_start_def progress_pick progress_cancel fire_monotone [OF inv])

lemma step_reaches_100:
  assumes inv: "sim_inv s" and before: "progress s \<noteq> 100"
    and after: "progress (sim_step s e) = 100"
  shows "\<exists>h ident t nm r. e = SimFire h ident \<and> find_timer h (sim_timers s) = Some t
           \<and> may_fire t (sim_timers s) \<and> callback t = ToComplete nm r"
proof (cases e)
  case (SimFire h ident)
  show ?thesis
  proof (cases "find_timer h (sim_timers s)")
    case None
    with SimFire before after show ?thesis by (simp add: progress_fire)
  next
    case (Some t)
    show ?thesis
    proof (cases "callback t")
      case (Tick k)
      have "pct (k + 1) \<noteq> 100" using pct_le_96 [of "k + 1"] by simp
      with SimFire Some Tick before after show ?thesis
        by (simp add: progress_fire split: if_splits)
    next
      case (ToComplete nm r)
      with SimFire Some before after show ?thesis
        by (simp add: progress_fire split: if_splits)
    qed (use SimFire Some before after in \<open>simp_all add: progress_fire split: if_splits\<close>)
  qed
qed (use before after in \<open>simp_all add: progress_pick progress_cancel progress_start split: if_splits\<close>)

lemma fire_complete_result:
  assumes "find_timer h (sim_timers s) = Some t" "may_fire t (sim_timers s)"
    "callback t = ToComplete nm r"
  shows "status (sim_fire h ident s) = Some ''COMPLETED''"
    "resultData (sim_fire h ident s) = Some (mock_result nm r)"
    "resultUrl (sim_fire h ident s) = Some (createObjectURL ident)"
    "progress (sim_fire h ident s) = 100"
  using assms by (simp_all add: sim_fire_def sim_setTimer_def Let_def)

lemma sim_run_snoc: "sim_run (es @ [e]) = sim_step (sim_run es) e"
  by (simp add: sim_run_def)

lemma sim_two_ticks_state:
  "sim_run sim_two_ticks =
   \<lparr>risk = MEDIUM, chosen_file = Some law_html,
    jobId = Some (make_job_id 1762086000000 ''0.4fzyo82mvyr''), status = Some ''RUNNING'',
    resultUrl = None, resultData = None, error = None, busy = True,
    progress = 3, showConfetti = False, timersRef = [0, 2], intervalsRef = [1],
    sim_timers =
      [\<lparr>handle = 1, seq = 5, delay = 120, repeating = True, callback = Tick 2\<rparr>,
       \<lparr>handle = 2, seq = 2, delay = 9000, repeating = False,
          callback = ToComplete (file_name law_html) MEDIUM\<rparr>],
    sim_ticket = 6\<rparr>"
  by (simp add: sim_two_ticks_def sim_run_def sim_init_def pick_def law_html_accepted
      sim_start_def sim_setTimer_def Let_def new_timer_def sim_fire_def find_timer_def
      may_fire_def rearm_def clear_timer_def tickMs_def totalMs_def pct_def js_round_div_def
      ticks_def)

lemma sim_completed_state:
  "sim_step (sim_run sim_two_ticks) (SimFire 2 ''3f1c'') =
   \<lparr>risk = MEDIUM, chosen_file = Some law_html,
    jobId = Some (make_job_id 1762086000000 ''0.4fzyo82mvyr''), status = Some ''COMPLETED'',
    resultUrl = Some (createObjectURL ''3f1c''),
    resultData = Some (mock_result (file_name law_html) MEDIUM), error = None, busy = False,
    progress = 100, showConfetti = True, timersRef = [0, 2, 7], intervalsRef = [],
    sim_timers =
      [\<lparr>handle = 7, seq = 7, delay = 2500, repeating = False, callback = ConfettiOff\<rparr>],
    sim_ticket = 8\<rparr>"
  by (simp add: sim_two_ticks_state sim_fire_def find_timer_def may_fire_def clear_timer_def
      clear_each_def sim_setTimer_def Let_def new_timer_def)

text \<open>
  C9. In every state the simulated component can reach, and for every next event other
  than a click on \<open>Start\<close> (which opens a new submission at 0): the event does not lower
  \<open>progress\<close>; while an interval timer is pending \<open>progress\<close> is at most 96; \<open>progress\<close>
  is 100 exactly when \<open>status\<close> is \<open>COMPLETED\<close>, and then no interval is pending, the
  component is not busy and \<open>resultData\<close> holds the fixed payload; and an event that
  brings \<open>progress\<close> to 100 is the firing of the \<open>toComplete\<close> timer, which in the same
  step stores that payload and sets \<open>COMPLETED\<close>.
\<close>

theorem sim_progress_monotone_capped_final:
  "(\<not> is_start e \<longrightarrow> progress (sim_run es) \<le> progress (sim_step (sim_run es) e))
   \<and> (list_ex is_tick (sim_timers (sim_run es)) \<longrightarrow> progress (sim_run es) \<le> 96)
   \<and> (progress (sim_run es) = 100 \<longleftrightarrow> status (sim_run es) = Some ''COMPLETED'')
   \<and> (progress (sim_run es) = 100 \<longrightarrow>
         \<not> list_ex is_tick (sim_timers (sim_run es)) \<and> \<not> busy (sim_run es)
         \<and> (\<exists>nm r. resultData (sim_run es) = Some (mock_result nm r)))
   \<and> (progress (sim_run es) \<noteq> 100 \<and> progress (sim_step (sim_run es) e) = 100 \<longrightarrow>
         (\<exists>h ident t nm r. e = SimFire h ident
            \<and> find_timer h (sim_timers (sim_run es)) = Some t \<and> callback t = ToComplete nm r
            \<and> resultData (sim_step (sim_run es) e) = Some (mock_result nm r)
            \<and> status (sim_step (sim_run es) e) = Some ''COMPLETED''))"
proof -
  let ?s = "sim_run es"
  have inv: "sim_inv ?s" by (rule sim_inv_run)
  have tick: "progress ?s \<le> 96 \<and> busy ?s" if "list_ex is_tick (sim_timers ?s)"
  proof -
    from that obtain t where t: "t \<in> set (sim_timers ?s)" "is_tick t"
      by (auto simp: list_ex_iff)
    then obtain k where "callback t = Tick k"
      by (cases "callback t") (simp_all add: is_tick_def)
    with inv t(1) show ?thesis by (simp add: inv_tick_progress pct_le_96)
  qed
  have a: "\<not> is_start e \<longrightarrow> progress ?s \<le> progress (sim_step ?s e)"
    using step_monotone [OF inv] by blast
  have b: "list_ex is_tick (sim_timers ?s) \<longrightarrow> progress ?s \<le> 96"
    using tick by blast
  have c: "progress ?s = 100 \<longleftrightarrow> status ?s = Some ''COMPLETED''"
    by (rule inv_progress_100 [OF inv])
  have d: "progress ?s = 100 \<longrightarrow>
         \<not> list_ex is_tick (sim_timers ?s) \<and> \<not> busy ?s
         \<and> (\<exists>nm r. resultData ?s = Some (mock_result nm r))"
  proof
    assume p: "progress ?s = 100"
    with c have "status ?s = Some ''COMPLETED''" by simp
    from inv_completed(1,2) [OF inv this] tick
    show "\<not> list_ex is_tick (sim_timers ?s) \<and> \<not> busy ?s
         \<and> (\<exists>nm r. resultData ?s = Some (mock_result nm r))"
      by blast
  qed
  have e: "progress ?s \<noteq> 100 \<and> progress (sim_step ?s e) = 100 \<longrightarrow>
         (\<exists>h ident t nm r. e = SimFire h ident
            \<and> find_timer h (sim_timers ?s) = Some t \<and> callback t = ToComplete nm r
            \<and> resultData (sim_step ?s e) = Some (mock_result nm r)
            \<and> status (sim_step ?s e) = Some ''COMPLETED'')"
  proof
    assume "progress ?s \<noteq> 100 \<and> progress (sim_step ?s e) = 100"
    then obtain h ident t nm r where x: "e = SimFire h ident"
      "find_timer h (sim_timers ?s) = Some t" "may_fire t (sim_timers ?s)"
      "callback t = ToComplete nm r"
      using step_reaches_100 [OF inv] by blast
    from fire_complete_result(1,2) [OF x(2,3,4)] x(1,2,4)
    show "\<exists>h ident t nm r. e = SimFire h ident
            \<and> find_timer h (sim_timers ?s) = Some t \<and> callback t = ToComplete nm r
            \<and> resultData (sim_step ?s e) = Some (mock_result nm r)
            \<and> status (sim_step ?s e) = Some ''COMPLETED''"
      by auto
  qed
  from a b c d e show ?thesis by blast
qed

theorem sim_progress_monotone_capped_final_witness:
  "\<not> is_start (SimFire 2 ''3f1c'')
   \<and> list_ex is_tick (sim_timers (sim_run sim_two_ticks))
   \<and> progress (sim_run sim_two_ticks) = 3
   \<and> progress (sim_run sim_two_ticks) \<le> 96
   \<and> progress (sim_run sim_two_ticks) \<le> progress (sim_step (sim_run sim_two_ticks) (SimFire 2 ''3f1c''))
   \<and> progress (sim_run (sim_two_ticks @ [SimFire 2 ''3f1c''])) = 100
   \<and> status (sim_run (sim_two_ticks @ [SimFire 2 ''3f1c''])) = Some ''COMPLETED''
   \<and> \<not> busy (sim_run (sim_two_ticks @ [SimFire 2 ''3f1c'']))
   \<and> \<not> list_ex is_tick (sim_timers (sim_run (sim_two_ticks @ [SimFire 2 ''3f1c''])))
   \<and> resultData (sim_run (sim_two_ticks @ [SimFire 2 ''3f1c'']))
       = Some (mock_result (file_name law_html) MEDIUM)"
  using sim_progress_monotone_capped_final [of "SimFire 2 ''3f1c''" sim_two_ticks]
        sim_progress_monotone_capped_final [of "SimFire 2 ''3f1c''" "sim_two_ticks @ [SimFire 2 ''3f1c'']"]
  apply (simp only: sim_run_snoc sim_completed_state)
  apply (simp add: sim_two_ticks_state is_tick_def is_start_def sim_fire_def find_timer_def)
  done

section \<open>The live driver keeps its invariant\<close>

lemma live_inv_init: "live_inv live_init"
  by (simp add: live_inv_def live_init_def)

lemma live_inv_cells:
  assumes "live_inv s" "live_timers s' = live_timers s" "pollRef s' = pollRef s"
  shows "live_inv s'"
  using assms by (simp add: live_inv_def)

lemma live_inv_clearInterval: "live_inv s \<Longrightarrow> live_inv (clearInterval r s)"
  by (cases r) (auto simp: clearInterval_def live_inv_def)

lemma live_inv_fail: "live_inv s \<Longrightarrow> live_inv (fail msg s)"
  by (erule live_inv_cells) (simp_all add: fail_def)

lemma live_inv_send: "live_inv s \<Longrightarrow> live_inv (send k s)"
  by (erule live_inv_cells) (simp_all add: send_def)

lemma live_inv_settle: "live_inv s \<Longrightarrow> live_inv (settle i s)"
  by (erule live_inv_cells) (simp_all add: settle_def)

lemma live_inv_getJob_send: "live_inv s \<Longrightarrow> live_inv (getJob_send k ident s)"
  by (erule live_inv_cells) (simp_all add: getJob_send_def send_def)

lemma getJob_keeps:
  "live_timers (snd (getJob r s)) = live_timers s" "pollRef (snd (getJob r s)) = pollRef s"
  "busy (snd (getJob r s)) = busy s" "error (snd (getJob r s)) = error s"
  "inflight (snd (getJob r s)) = inflight s" "queries (snd (getJob r s)) = queries s"
  by (simp_all add: getJob_def split: reply.splits body.splits)

lemma live_inv_getJob: "live_inv s \<Longrightarrow> live_inv (snd (getJob r s))"
  by (erule live_inv_cells) (simp_all add: getJob_keeps)

lemma live_inv_busy: "live_inv s \<Longrightarrow> live_inv (s\<lparr>busy := b\<rparr>)"
  by (erule live_inv_cells) simp_all

lemma live_inv_after_poll_tick: "live_inv s \<Longrightarrow> live_inv (after_poll_tick r s)"
proof -
  assume "live_inv s"
  then have g: "live_inv (snd (getJob r s))" by (rule live_inv_getJob)
  obtain res s' where e: "getJob r s = (res, s')" by (cases "getJob r s")
  with g have "live_inv s'" by simp
  then have "live_inv ((clearInterval (pollRef s') s')\<lparr>busy := False\<rparr>)"
    by (intro live_inv_busy live_inv_clearInterval)
  with \<open>live_inv s'\<close> e show ?thesis
    by (simp add: after_poll_tick_def split: sum.splits option.splits)
qed

lemma live_inv_beginPolling: "live_inv s \<Longrightarrow> live_inv (beginPolling ident s)"
proof -
  assume inv: "live_inv s"
  have none: "\<forall>t\<in>set (live_timers (clearInterval (pollRef s) s)). \<not> is_poll t"
    using inv by (cases "pollRef s") (auto simp: clearInterval_def live_inv_def)
  have grace: "\<forall>t\<in>set (live_timers (clearInterval (pollRef s) s)). is_grace t \<longrightarrow>
      delay t = 800 \<and> \<not> repeating t"
    using live_inv_clearInterval [OF inv] by (simp add: live_inv_def)
  have tm: "live_timers (beginPolling ident s) =
      live_timers (clearInterval (pollRef s) s)
        @ [new_timer (live_ticket s) True (PollTick ident) 2500]"
    and pr: "pollRef (beginPolling ident s) = Some (live_ticket s)"
    by (cases "pollRef s";
        simp add: beginPolling_def live_setTimer_def getJob_send_def send_def Let_def
          clearInterval_def)+
  show ?thesis
    unfolding live_inv_def tm pr using none grace
    by (auto simp: new_timer_def is_poll_def is_grace_def)
qed

lemma live_inv_cancel: "live_inv s \<Longrightarrow> live_inv (live_cancelPolling s)"
  unfolding live_cancelPolling_def by (intro live_inv_busy live_inv_clearInterval)

lemma live_inv_start: "live_inv s \<Longrightarrow> live_inv (live_start s)"
  by (erule live_inv_cells)
     (simp_all add: live_start_def send_def Let_def split: option.splits)

lemma live_inv_after_create: "live_inv s \<Longrightarrow> live_inv (after_create r s)"
  by (erule live_inv_cells)
     (simp_all add: after_create_def send_def fail_def split: reply.splits body.splits)

lemma live_inv_grace_timer:
  "live_inv s \<Longrightarrow> live_inv (snd (live_setTimer False (Grace ident) 800 s))"
  by (auto simp: live_setTimer_def live_inv_def new_timer_def is_poll_def is_grace_def)

lemma live_inv_after_upload: "live_inv s \<Longrightarrow> live_inv (after_upload r ident s)"
  by (simp add: after_upload_def live_inv_fail live_inv_grace_timer split: reply.splits)

lemma live_inv_after_start: "live_inv s \<Longrightarrow> live_inv (after_start r ident s)"
proof -
  assume inv: "live_inv s"
  then have "live_inv (s\<lparr>status := Some ''RUNNING''\<rparr>)"
    by (rule live_inv_cells) simp_all
  then have "live_inv (beginPolling ident (s\<lparr>status := Some ''RUNNING''\<rparr>))"
    by (rule live_inv_beginPolling)
  with inv show ?thesis
    by (simp add: after_start_def live_inv_fail split: reply.splits)
qed

lemma live_inv_fire: "live_inv s \<Longrightarrow> live_inv (live_fire h s)"
proof -
  assume inv: "live_inv s"
  have re: "live_inv (s\<lparr>live_timers := rearm h n (live_timers s), live_ticket := m\<rparr>)"
    "live_inv (s\<lparr>live_timers := clear_timer h (live_timers s), live_ticket := m\<rparr>)" for n m
    using inv by (auto simp: live_inv_def is_poll_def is_grace_def)
  show ?thesis
    by (simp add: live_fire_def Let_def after_grace_def live_inv_send live_inv_getJob_send re inv
        split: option.splits live_callback.splits)
qed

lemma live_inv_step: "live_inv s \<Longrightarrow> live_inv (live_step s e)"
proof (cases e)
  case (Pick f)
  assume "live_inv s" then show ?thesis
    unfolding Pick by (simp add: live_inv_def pick_def)
next
  case (SetRisk r)
  assume "live_inv s" then show ?thesis
    unfolding SetRisk by (simp add: live_inv_def)
next
  case ClickStart
  assume "live_inv s" then show ?thesis
    unfolding ClickStart by (simp add: live_inv_start)
next
  case ClickCancel
  assume "live_inv s" then show ?thesis
    unfolding ClickCancel by (simp add: live_inv_cancel)
next
  case (Fire h)
  assume "live_inv s" then show ?thesis
    unfolding Fire by (simp add: live_inv_fire)
next
  case (CreateReply i r)
  assume "live_inv s" then show ?thesis
    unfolding CreateReply
    by (simp add: live_inv_after_create live_inv_settle split: option.splits pending_call.splits)
next
  case (UploadReply i r)
  assume "live_inv s" then show ?thesis
    unfolding UploadReply
    by (simp add: live_inv_after_upload live_inv_settle split: option.splits pending_call.splits)
next
  case (StartReply i r)
  assume "live_inv s" then show ?thesis
    unfolding StartReply
    by (simp add: live_inv_after_start live_inv_settle split: option.splits pending_call.splits)
next
  case (PollReply i r)
  assume "live_inv s" then show ?thesis
    unfolding PollReply
    by (simp add: live_inv_after_poll_tick live_inv_getJob live_inv_settle after_poll_first_def
        split: option.splits pending_call.splits)
qed

lemma live_inv_foldl: "live_inv s \<Longrightarrow> live_inv (foldl live_step s es)"
  by (induction es arbitrary: s) (simp_all add: live_inv_step)

lemma live_inv_run: "live_inv (live_run es)"
  unfolding live_run_def by (rule live_inv_foldl [OF live_inv_init])

section \<open>Poll ticks of the live driver\<close>

lemma no_poll_after_clear:
  assumes "live_inv s"
  shows "\<not> list_ex is_poll (live_timers (clearInterval (pollRef s) s))"
  using assms
  by (cases "pollRef s") (auto simp: clearInterval_def live_inv_def list_ex_iff)

lemma step_poll_tick:
  "map_of (inflight s) i = Some (AwaitPollTick ident) \<Longrightarrow>
   live_step s (PollReply i r) = after_poll_tick r (settle i s)"
  by simp

lemma settle_cells:
  "live_timers (settle i s) = live_timers s" "pollRef (settle i s) = pollRef s"
  "busy (settle i s) = busy s" "status (settle i s) = status s"
  "resultUrl (settle i s) = resultUrl s" "error (settle i s) = error s"
  "queries (settle i s) = queries s" "jobId (settle i s) = jobId s"
  by (simp_all add: settle_def)

lemma clearInterval_cells:
  "pollRef (clearInterval r s) = pollRef s"
  "busy (clearInterval r s) = busy s" "status (clearInterval r s) = status s"
  "resultUrl (clearInterval r s) = resultUrl s" "error (clearInterval r s) = error s"
  "queries (clearInterval r s) = queries s" "inflight (clearInterval r s) = inflight s"
  by (simp_all add: clearInterval_def split: option.splits)

lemma ok_not_404: "ok code \<Longrightarrow> code \<noteq> 404"
  by (simp add: ok_def)

lemma after_poll_tick_404:
  "after_poll_tick (Response 404 b) s = (clearInterval (pollRef s) s)\<lparr>busy := False\<rparr>"
  by (simp add: after_poll_tick_def getJob_def)

lemma after_poll_tick_fails: "query_fails r \<Longrightarrow> after_poll_tick r s = s"
  by (auto simp: after_poll_tick_def getJob_def query_fails_def split: reply.splits body.splits)

lemma after_poll_first_fails: "query_fails r \<Longrightarrow> after_poll_first r s = s"
  by (auto simp: after_poll_first_def getJob_def query_fails_def split: reply.splits body.splits)

lemma after_poll_tick_json:
  assumes "ok code"
  shows "after_poll_tick (Response code (Json d)) s =
     (let s' = s\<lparr>status := json_status d,
                  resultUrl := (if truthy (result_url d) then result_url d else resultUrl s)\<rparr>
      in if truthy (result_url d) \<or> json_status d = Some ''FAILED''
         then (clearInterval (pollRef s') s')\<lparr>busy := False\<rparr> else s')"
  using assms ok_not_404 [OF assms] by (simp add: after_poll_tick_def getJob_def Let_def)

lemma live_run_snoc: "live_run (es @ [e]) = live_step (live_run es) e"
  by (simp add: live_run_def)

lemma live_run_append: "live_run (es @ fs) = foldl live_step (live_run es) fs"
  by (simp add: live_run_def)

lemma live_created_state:
  "live_run live_created =
   \<lparr>risk = MEDIUM, chosen_file = Some law_html, jobId = Some ''job-17'',
    status = Some ''PENDING'', resultUrl = None, resultData = None, error = None, busy = True,
    pollRef = None, live_timers = [], live_ticket = 0,
    inflight = [(1, AwaitUpload ''job-17'')], next_request = 2, queries = []\<rparr>"
  by (simp add: live_created_def live_run_def live_init_def pick_def law_html_accepted
      live_start_def send_def settle_def after_create_def ok_def Let_def)

lemma live_uploaded_state:
  "live_run live_uploaded =
   \<lparr>risk = MEDIUM, chosen_file = Some law_html, jobId = Some ''job-17'',
    status = Some ''PENDING'', resultUrl = None, resultData = None, error = None, busy = True,
    pollRef = None,
    live_timers = [\<lparr>handle = 0, seq = 0, delay = 800, repeating = False,
                     callback = Grace ''job-17''\<rparr>],
    live_ticket = 1, inflight = [], next_request = 2, queries = []\<rparr>"
  by (simp add: live_uploaded_def live_run_snoc live_created_state settle_def after_upload_def
      ok_def live_setTimer_def new_timer_def)

lemma live_polling_state:
  "live_run live_polling =
   \<lparr>risk = MEDIUM, chosen_file = Some law_html, jobId = Some ''job-17'',
    status = Some ''RUNNING'', resultUrl = None, resultData = None, error = None, busy = True,
    pollRef = Some 2,
    live_timers = [\<lparr>handle = 2, seq = 3, delay = 2500, repeating = True,
                     callback = PollTick ''job-17''\<rparr>],
    live_ticket = 4, inflight = [(4, AwaitPollTick ''job-17'')], next_request = 5,
    queries = [''job-17'', ''job-17'']\<rparr>"
  by (simp add: live_polling_def live_run_append live_uploaded_state live_fire_def
      find_timer_def may_fire_def clear_timer_def rearm_def after_grace_def send_def settle_def
      after_start_def beginPolling_def clearInterval_def getJob_send_def live_setTimer_def
      new_timer_def after_poll_first_def getJob_def ok_def running_json_def truthy_def Let_def)

text \<open>
  C4, as the code has it. When the response to a tick's query is a success, the poller
  stores the reported status, and the result location if the response carries a
  non-empty one; it stops the polling interval and clears \<open>busy\<close> exactly when the
  response carries a non-empty \<open>result_url\<close> or reports the status \<open>FAILED\<close>, and
  otherwise leaves the timers and \<open>busy\<close> as they are. When the job is reported as not
  found, it stops the interval and clears \<open>busy\<close>.
\<close>

theorem poll_tick_stops_on_result_or_failed:
  assumes "map_of (inflight (live_run es)) i = Some (AwaitPollTick ident)" and "ok code"
  shows "status (live_step (live_run es) (PollReply i (Response code (Json d)))) = json_status d
    \<and> resultUrl (live_step (live_run es) (PollReply i (Response code (Json d))))
        = (if truthy (result_url d) then result_url d else resultUrl (live_run es))
    \<and> (if truthy (result_url d) \<or> json_status d = Some ''FAILED''
        then \<not> list_ex is_poll (live_timers (live_step (live_run es) (PollReply i (Response code (Json d)))))
           \<and> \<not> busy (live_step (live_run es) (PollReply i (Response code (Json d))))
        else live_timers (live_step (live_run es) (PollReply i (Response code (Json d))))
               = live_timers (live_run es)
           \<and> busy (live_step (live_run es) (PollReply i (Response code (Json d))))
               = busy (live_run es))
    \<and> \<not> list_ex is_poll (live_timers (live_step (live_run es) (PollReply i (Response 404 b))))
    \<and> \<not> busy (live_step (live_run es) (PollReply i (Response 404 b)))"
proof -
  let ?s = "live_run es"
  let ?s' = "(settle i ?s)\<lparr>status := json_status d,
                  resultUrl := (if truthy (result_url d) then result_url d else resultUrl ?s)\<rparr>"
  have inv: "live_inv (settle i ?s)"
    by (intro live_inv_settle live_inv_run)
  then have inv': "live_inv ?s'"
    by (rule live_inv_cells) simp_all
  have stop: "\<not> list_ex is_poll (live_timers (clearInterval (pollRef ?s') ?s'))"
    by (rule no_poll_after_clear [OF inv'])
  have stop404: "\<not> list_ex is_poll (live_timers (clearInterval (pollRef (settle i ?s)) (settle i ?s)))"
    by (rule no_poll_after_clear [OF inv])
  have eq: "live_step ?s (PollReply i (Response code (Json d))) =
      (if truthy (result_url d) \<or> json_status d = Some ''FAILED''
       then (clearInterval (pollRef ?s') ?s')\<lparr>busy := False\<rparr> else ?s')"
    unfolding step_poll_tick [OF assms(1)] after_poll_tick_json [OF assms(2)]
    by (simp add: Let_def settle_cells)
  have eq404: "live_step ?s (PollReply i (Response 404 b)) =
      (clearInterval (pollRef (settle i ?s)) (settle i ?s))\<lparr>busy := False\<rparr>"
    unfolding step_poll_tick [OF assms(1)] after_poll_tick_404 by simp
  show ?thesis
    unfolding eq eq404 using stop stop404
    by (simp add: clearInterval_cells settle_cells)
qed

theorem poll_tick_stops_on_result_or_failed_witness:
  "map_of (inflight (live_run live_polling)) 4 = Some (AwaitPollTick ''job-17'')
   \<and> ok 200
   \<and> status (live_step (live_run live_polling)
        (PollReply 4 (Response 200 (Json \<lparr>json_status = Some ''COMPLETED'',
                                           result_url = Some ''https://bucket/result.json''\<rparr>))))
       = Some ''COMPLETED''
   \<and> resultUrl (live_step (live_run live_polling)
        (PollReply 4 (Response 200 (Json \<lparr>json_status = Some ''COMPLETED'',
                                           result_url = Some ''https://bucket/result.json''\<rparr>))))
       = Some ''https://bucket/result.json''
   \<and> \<not> busy (live_step (live_run live_polling)
        (PollReply 4 (Response 200 (Json \<lparr>json_status = Some ''COMPLETED'',
                                           result_url = Some ''https://bucket/result.json''\<rparr>))))
   \<and> \<not> list_ex is_poll (live_timers (live_step (live_run live_polling)
        (PollReply 4 (Response 200 (Json \<lparr>json_status = Some ''COMPLETED'',
                                           result_url = Some ''https://bucket/result.json''\<rparr>)))))"
  using poll_tick_stops_on_result_or_failed
          [of live_polling 4 "''job-17''" 200
              "\<lparr>json_status = Some ''COMPLETED'', result_url = Some ''https://bucket/result.json''\<rparr>"]
  by (simp add: live_polling_state ok_def truthy_def)

text \<open>
  C4, as stated, fails: a response that reports \<open>COMPLETED\<close> without a \<open>result_url\<close> is
  a terminal status, yet the interval stays armed and \<open>busy\<close> stays set, and the next
  firing of the interval sends a third query.
\<close>

theorem completed_without_result_keeps_polling_counterexample:
  "status (live_run (live_polling @
       [PollReply 4 (Response 200 (Json \<lparr>json_status = Some ''COMPLETED'', result_url = None\<rparr>))]))
     = Some ''COMPLETED''
   \<and> busy (live_run (live_polling @
       [PollReply 4 (Response 200 (Json \<lparr>json_status = Some ''COMPLETED'', result_url = None\<rparr>))]))
   \<and> list_ex is_poll (live_timers (live_run (live_polling @
       [PollReply 4 (Response 200 (Json \<lparr>json_status = Some ''COMPLETED'', result_url = None\<rparr>))])))
   \<and> queries (live_run (live_polling @
       [PollReply 4 (Response 200 (Json \<lparr>json_status = Some ''COMPLETED'', result_url = None\<rparr>)),
        Fire 2]))
     = [''job-17'', ''job-17'', ''job-17'']"
  by (simp add: live_run_append live_polling_state settle_def after_poll_tick_def getJob_def
      ok_def truthy_def is_poll_def live_fire_def find_timer_def may_fire_def rearm_def
      getJob_send_def send_def Let_def)

text \<open>
  C5. When the query of a tick fails (no response, a status code outside 200..299 other
  than 404, or a body that is not JSON), the callback ends without a trace: the state is
  what it was, apart from the request being settled; the interval is still pending,
  still repeating with its period of 2500 ms; and \<open>error\<close> is untouched. The same holds
  for the query \<open>beginPolling\<close> sends directly.
\<close>

theorem failed_poll_tick_is_skipped:
  assumes "map_of (inflight (live_run es)) i = Some (AwaitPollTick ident)" and "query_fails r"
  shows "live_step (live_run es) (PollReply i r) = settle i (live_run es)
    \<and> live_timers (live_step (live_run es) (PollReply i r)) = live_timers (live_run es)
    \<and> list_all (\<lambda>t. \<not> is_poll t \<or> (delay t = 2500 \<and> repeating t))
         (live_timers (live_step (live_run es) (PollReply i r)))
    \<and> pollRef (live_step (live_run es) (PollReply i r)) = pollRef (live_run es)
    \<and> error (live_step (live_run es) (PollReply i r)) = error (live_run es)
    \<and> busy (live_step (live_run es) (PollReply i r)) = busy (live_run es)
    \<and> status (live_step (live_run es) (PollReply i r)) = status (live_run es)
    \<and> resultUrl (live_step (live_run es) (PollReply i r)) = resultUrl (live_run es)
    \<and> after_poll_first r (live_run es) = live_run es"
proof -
  have eq: "live_step (live_run es) (PollReply i r) = settle i (live_run es)"
    unfolding step_poll_tick [OF assms(1)] by (rule after_poll_tick_fails [OF assms(2)])
  have "live_inv (live_run es)" by (rule live_inv_run)
  then have "list_all (\<lambda>t. \<not> is_poll t \<or> (delay t = 2500 \<and> repeating t)) (live_timers (live_run es))"
    unfolding live_inv_def list_all_iff by blast
  then show ?thesis
    unfolding eq by (simp add: settle_cells after_poll_first_fails [OF assms(2)])
qed

theorem failed_poll_tick_is_skipped_witness:
  "map_of (inflight (live_run live_polling)) 4 = Some (AwaitPollTick ''job-17'')
   \<and> query_fails (Response 503 (Unparsable ''Unexpected token <''))
   \<and> query_fails (Rejected ''Failed to fetch'')
   \<and> live_timers (live_step (live_run live_polling)
         (PollReply 4 (Response 503 (Unparsable ''Unexpected token <''))))
       = [\<lparr>handle = 2, seq = 3, delay = 2500, repeating = True, callback = PollTick ''job-17''\<rparr>]
   \<and> error (live_step (live_run live_polling)
         (PollReply 4 (Response 503 (Unparsable ''Unexpected token <'')))) = None
   \<and> busy (live_step (live_run live_polling) (PollReply 4 (Rejected ''Failed to fetch'')))
   \<and> status (live_step (live_run live_polling) (PollReply 4 (Rejected ''Failed to fetch'')))
       = Some ''RUNNING''"
  using failed_poll_tick_is_skipped
          [of live_polling 4 "''job-17''" "Response 503 (Unparsable ''Unexpected token <'')"]
        failed_poll_tick_is_skipped [of live_polling 4 "''job-17''" "Rejected ''Failed to fetch''"]
  by (simp add: live_polling_state query_fails_def ok_def settle_def)

text \<open>
  C6. When the query of a tick is answered with 404, the callback stops the polling
  interval, so that no interval is pending any more, and clears \<open>busy\<close>; \<open>status\<close>,
  \<open>resultUrl\<close>, \<open>jobId\<close> and \<open>error\<close> keep the values they had, and no query is sent.
\<close>

theorem not_found_halts_polling_silently:
  assumes "map_of (inflight (live_run es)) i = Some (AwaitPollTick ident)"
  shows "\<not> list_ex is_poll (live_timers (live_step (live_run es) (PollReply i (Response 404 b))))
    \<and> \<not> busy (live_step (live_run es) (PollReply i (Response 404 b)))
    \<and> error (live_step (live_run es) (PollReply i (Response 404 b))) = error (live_run es)
    \<and> status (live_step (live_run es) (PollReply i (Response 404 b))) = status (live_run es)
    \<and> resultUrl (live_step (live_run es) (PollReply i (Response 404 b))) = resultUrl (live_run es)
    \<and> jobId (live_step (live_run es) (PollReply i (Response 404 b))) = jobId (live_run es)
    \<and> queries (live_step (live_run es) (PollReply i (Response 404 b))) = queries (live_run es)"
proof -
  let ?s = "live_run es"
  have inv: "live_inv (settle i ?s)"
    by (intro live_inv_settle live_inv_run)
  have stop: "\<not> list_ex is_poll (live_timers (clearInterval (pollRef (settle i ?s)) (settle i ?s)))"
    by (rule no_poll_after_clear [OF inv])
  have eq: "live_step ?s (PollReply i (Response 404 b)) =
      (clearInterval (pollRef (settle i ?s)) (settle i ?s))\<lparr>busy := False\<rparr>"
    unfolding step_poll_tick [OF assms(1)] after_poll_tick_404 by simp
  show ?thesis
    unfolding eq using stop
    by (simp add: clearInterval_cells settle_cells)
      (simp add: clearInterval_def settle_def split: option.splits)
qed

theorem not_found_halts_polling_silently_witness:
  "map_of (inflight (live_run live_polling)) 4 = Some (AwaitPollTick ''job-17'')
   \<and> live_timers (live_step (live_run live_polling) (PollReply 4 (Response 404 (Unparsable [])))) = []
   \<and> \<not> busy (live_step (live_run live_polling) (PollReply 4 (Response 404 (Unparsable []))))
   \<and> error (live_step (live_run live_polling) (PollReply 4 (Response 404 (Unparsable [])))) = None
   \<and> status (live_step (live_run live_polling) (PollReply 4 (Response 404 (Unparsable []))))
       = Some ''RUNNING''
   \<and> queries (live_step (live_run live_polling) (PollReply 4 (Response 404 (Unparsable []))))
       = [''job-17'', ''job-17'']"
  using not_found_halts_polling_silently [of live_polling 4 "''job-17''" "Unparsable []"]
  by (simp add: live_polling_state settle_def after_poll_tick_def getJob_def clearInterval_def
      clear_timer_def)

section \<open>The start trigger of the live driver\<close>

lemma inflight_send: "inflight (send k s) = inflight s @ [(next_request s, k)]"
  by (simp add: send_def)

lemma inflight_settle: "set (inflight (settle i s)) \<subseteq> set (inflight s)"
  by (auto simp: settle_def)

lemma inflight_fail: "inflight (fail msg s) = inflight s"
  by (simp add: fail_def)

lemma inflight_after_poll:
  "inflight (after_poll_tick r s) = inflight s" "inflight (after_poll_first r s) = inflight s"
  by (simp_all add: after_poll_tick_def after_poll_first_def getJob_def clearInterval_def
      split: reply.splits body.splits option.splits)

lemma inflight_after_create:
  "(n, AwaitStart a) \<in> set (inflight (after_create r s)) \<Longrightarrow> (n, AwaitStart a) \<in> set (inflight s)"
  by (auto simp: after_create_def fail_def send_def split: reply.splits body.splits if_splits)

lemma inflight_after_upload: "inflight (after_upload r ident s) = inflight s"
  by (simp add: after_upload_def fail_def live_setTimer_def split: reply.splits)

lemma inflight_beginPolling:
  "inflight (beginPolling ident s) = inflight s @ [(next_request s, AwaitPollFirst ident)]"
  by (simp add: beginPolling_def getJob_send_def send_def live_setTimer_def clearInterval_def
      Let_def split: option.splits)

lemma inflight_after_start:
  "(n, AwaitStart a) \<in> set (inflight (after_start r ident s)) \<Longrightarrow> (n, AwaitStart a) \<in> set (inflight s)"
  by (auto simp: after_start_def fail_def inflight_beginPolling split: reply.splits if_splits)

lemma inflight_start:
  "(n, AwaitStart a) \<in> set (inflight (live_start s)) \<Longrightarrow> (n, AwaitStart a) \<in> set (inflight s)"
  by (auto simp: live_start_def send_def Let_def split: option.splits)

lemma inflight_fire:
  "inflight (live_fire h s) =
     (case find_timer h (live_timers s) of
        None \<Rightarrow> inflight s
      | Some t \<Rightarrow>
          if \<not> may_fire t (live_timers s) then inflight s
          else (case callback t of
                  Grace ident \<Rightarrow> inflight s @ [(next_request s, AwaitStart ident)]
                | PollTick ident \<Rightarrow> inflight s @ [(next_request s, AwaitPollTick ident)]))"
  by (simp add: live_fire_def after_grace_def getJob_send_def send_def Let_def
      split: option.splits live_callback.splits)

text \<open>Only the grace timer sends the start call.\<close>

lemma start_call_sent_by_grace:
  assumes new: "(n, AwaitStart ident) \<in> set (inflight (live_step s e))"
    and old: "(n, AwaitStart ident) \<notin> set (inflight s)"
  shows "\<exists>h t. e = Fire h \<and> find_timer h (live_timers s) = Some t
           \<and> may_fire t (live_timers s) \<and> callback t = Grace ident"
proof (cases e)
  case (Pick f)
  with new old show ?thesis by (simp add: pick_def split: if_splits)
next
  case (SetRisk r)
  with new old show ?thesis by (simp split: if_splits)
next
  case ClickStart
  with new old show ?thesis by (auto dest: inflight_start split: if_splits)
next
  case ClickCancel
  with new old show ?thesis
    by (simp add: live_cancelPolling_def clearInterval_def split: if_splits option.splits)
next
  case (Fire h)
  with new old show ?thesis
    by (auto simp: inflight_fire split: option.splits if_splits live_callback.splits)
next
  case (CreateReply i r)
  with new old inflight_settle [of i s]
  show ?thesis
    by (auto dest!: inflight_after_create split: option.splits pending_call.splits)
next
  case (UploadReply i r)
  with new old inflight_settle [of i s]
  show ?thesis
    by (auto simp: inflight_after_upload split: option.splits pending_call.splits)
next
  case (StartReply i r)
  with new old inflight_settle [of i s]
  show ?thesis
    by (auto dest!: inflight_after_start split: option.splits pending_call.splits)
next
  case (PollReply i r)
  with new old inflight_settle [of i s]
  show ?thesis
    by (auto simp: inflight_after_poll split: option.splits pending_call.splits)
qed

text \<open>
  C7. A successful upload arms a timeout of 800 ms and sends nothing; a start call
  appears among the requests in flight only when a pending 800 ms grace timeout for that
  job fires. A response to the start call with code 202 sets \<open>RUNNING\<close> and begins
  polling, leaving \<open>error\<close> and \<open>busy\<close> alone; with any other code, 200 included, or
  without a response, \<open>start\<close> ends in its \<open>catch\<close>: \<open>FAILED\<close>, \<open>busy\<close> cleared, the
  error message set, and no status query sent.
\<close>

theorem start_waits_for_grace_and_needs_202:
  "(ok code \<longrightarrow>
      live_timers (after_upload (Response code b) ident s)
        = live_timers s @ [new_timer (live_ticket s) False (Grace ident) 800]
      \<and> inflight (after_upload (Response code b) ident s) = inflight s
      \<and> status (after_upload (Response code b) ident s) = status s)
   \<and> ((n, AwaitStart ident) \<in> set (inflight (live_step (live_run es) e))
        \<and> (n, AwaitStart ident) \<notin> set (inflight (live_run es)) \<longrightarrow>
        (\<exists>h t. e = Fire h \<and> find_timer h (live_timers (live_run es)) = Some t
           \<and> callback t = Grace ident \<and> delay t = 800 \<and> \<not> repeating t))
   \<and> after_start (Response 202 b') ident s = beginPolling ident (s\<lparr>status := Some ''RUNNING''\<rparr>)
   \<and> status (after_start (Response 202 b') ident s) = Some ''RUNNING''
   \<and> error (after_start (Response 202 b') ident s) = error s
   \<and> busy (after_start (Response 202 b') ident s) = busy s
   \<and> queries (after_start (Response 202 b') ident s) = queries s @ [ident]
   \<and> (code' \<noteq> 202 \<longrightarrow>
        after_start (Response code' b') ident s
          = s\<lparr>error := Some ''Failed to start job'', busy := False, status := Some ''FAILED''\<rparr>)
   \<and> status (after_start (Rejected msg) ident s) = Some ''FAILED''
   \<and> \<not> busy (after_start (Rejected msg) ident s)
   \<and> queries (after_start (Rejected msg) ident s) = queries s"
proof -
  have up: "ok code \<longrightarrow>
      live_timers (after_upload (Response code b) ident s)
        = live_timers s @ [new_timer (live_ticket s) False (Grace ident) 800]
      \<and> inflight (after_upload (Response code b) ident s) = inflight s
      \<and> status (after_upload (Response code b) ident s) = status s"
    by (simp add: after_upload_def live_setTimer_def)
  have gr: "(n, AwaitStart ident) \<in> set (inflight (live_step (live_run es) e))
        \<and> (n, AwaitStart ident) \<notin> set (inflight (live_run es)) \<longrightarrow>
        (\<exists>h t. e = Fire h \<and> find_timer h (live_timers (live_run es)) = Some t
           \<and> callback t = Grace ident \<and> delay t = 800 \<and> \<not> repeating t)"
  proof
    assume "(n, AwaitStart ident) \<in> set (inflight (live_step (live_run es) e))
        \<and> (n, AwaitStart ident) \<notin> set (inflight (live_run es))"
    then obtain h t where x: "e = Fire h" "find_timer h (live_timers (live_run es)) = Some t"
      "callback t = Grace ident"
      using start_call_sent_by_grace by blast
    from x(2) have "t \<in> set (live_timers (live_run es))" by (simp add: find_timer_Some)
    moreover from x(3) have "is_grace t" by (simp add: is_grace_def)
    ultimately have "delay t = 800 \<and> \<not> repeating t"
      using live_inv_run [of es] unfolding live_inv_def by blast
    with x show "\<exists>h t. e = Fire h \<and> find_timer h (live_timers (live_run es)) = Some t
           \<and> callback t = Grace ident \<and> delay t = 800 \<and> \<not> repeating t"
      by blast
  qed
  have st: "after_start (Response 202 b') ident s = beginPolling ident (s\<lparr>status := Some ''RUNNING''\<rparr>)"
    "status (after_start (Response 202 b') ident s) = Some ''RUNNING''"
    "error (after_start (Response 202 b') ident s) = error s"
    "busy (after_start (Response 202 b') ident s) = busy s"
    "queries (after_start (Response 202 b') ident s) = queries s @ [ident]"
    by (simp_all add: after_start_def beginPolling_def getJob_send_def send_def live_setTimer_def
        clearInterval_def Let_def split: option.splits)
  have no: "code' \<noteq> 202 \<longrightarrow>
        after_start (Response code' b') ident s
          = s\<lparr>error := Some ''Failed to start job'', busy := False, status := Some ''FAILED''\<rparr>"
    by (simp add: after_start_def fail_def)
  have rej: "status (after_start (Rejected msg) ident s) = Some ''FAILED''"
    "\<not> busy (after_start (Rejected msg) ident s)"
    "queries (after_start (Rejected msg) ident s) = queries s"
    by (simp_all add: after_start_def fail_def)
  from up gr st no rej show ?thesis by blast
qed

theorem start_waits_for_grace_and_needs_202_witness:
  "ok 200
   \<and> live_timers (after_upload (Response 200 (Json [])) ''job-17'' (live_run live_created))
       = [\<lparr>handle = 0, seq = 0, delay = 800, repeating = False, callback = Grace ''job-17''\<rparr>]
   \<and> (2, AwaitStart ''job-17'') \<in> set (inflight (live_step (live_run live_uploaded) (Fire 0)))
   \<and> (2, AwaitStart ''job-17'') \<notin> set (inflight (live_run live_uploaded))
   \<and> find_timer 0 (live_timers (live_run live_uploaded))
       = Some \<lparr>handle = 0, seq = 0, delay = 800, repeating = False, callback = Grace ''job-17''\<rparr>
   \<and> (200 :: nat) \<noteq> 202
   \<and> status (after_start (Response 200 (Json ())) ''job-17'' (live_run live_created)) = Some ''FAILED''
   \<and> \<not> busy (after_start (Response 200 (Json ())) ''job-17'' (live_run live_created))
   \<and> error (after_start (Response 200 (Json ())) ''job-17'' (live_run live_created))
       = Some ''Failed to start job''
   \<and> status (after_start (Response 202 (Json ())) ''job-17'' (live_run live_created)) = Some ''RUNNING''"
  using start_waits_for_grace_and_needs_202
          [of 200 "Json []" "''job-17''" "live_run live_created" 2 live_uploaded "Fire 0"
              "Json ()" 200 "[]"]
  by (simp add: live_created_state live_uploaded_state ok_def new_timer_def live_fire_def
      find_timer_def may_fire_def clear_timer_def after_grace_def send_def after_start_def
      fail_def beginPolling_def getJob_send_def live_setTimer_def clearInterval_def
      after_upload_def Let_def)

section \<open>Cancellation in the live driver\<close>

lemma poll_or_grace: "is_poll t \<or> is_grace t"
  by (cases "callback t") (simp_all add: is_poll_def is_grace_def)

lemma cancel_poll_only:
  assumes inv: "live_inv s" and quiet: "\<not> submission_in_flight s"
  shows "poll_only (live_cancelPolling s)"
proof -
  let ?ts = "live_timers (clearInterval (pollRef s) s)"
  have np: "\<not> list_ex is_poll ?ts"
    by (rule no_poll_after_clear [OF inv])
  have sub: "set ?ts \<subseteq> set (live_timers s)"
    by (cases "pollRef s") (auto simp: clearInterval_def)
  from quiet have ng: "\<not> list_ex is_grace (live_timers s)"
    and nc: "\<not> list_ex (\<lambda>p. is_submission_call (snd p)) (inflight s)"
    by (simp_all add: submission_in_flight_def)
  have "t \<notin> set ?ts" for t
  proof
    assume t: "t \<in> set ?ts"
    with np have "\<not> is_poll t" by (auto simp: list_ex_iff)
    moreover from t sub ng have "\<not> is_grace t" by (auto simp: list_ex_iff)
    ultimately show False using poll_or_grace [of t] by simp
  qed
  then have "?ts = []" by (cases ?ts) auto
  then have "live_timers (live_cancelPolling s) = []"
    by (simp add: live_cancelPolling_def)
  moreover from nc
  have "list_all (\<lambda>p. \<not> is_submission_call (snd p)) (inflight (live_cancelPolling s))"
    by (simp add: live_cancelPolling_def clearInterval_cells list_all_iff list_ex_iff)
  ultimately show ?thesis by (simp add: poll_only_def)
qed

lemma poll_only_lookup:
  assumes "poll_only s" "map_of (inflight s) i = Some k"
  shows "\<not> is_submission_call k"
proof -
  from assms(2) have "(i, k) \<in> set (inflight s)" by (rule map_of_SomeD)
  with assms(1) show ?thesis by (auto simp: poll_only_def list_all_iff)
qed

lemma poll_only_settle: "poll_only s \<Longrightarrow> poll_only (settle i s)"
  by (auto simp: poll_only_def settle_def list_all_iff)

lemma poll_only_after_poll:
  assumes "poll_only s"
  shows "poll_only (after_poll_tick r s)" "poll_only (after_poll_first r s)"
    "queries (after_poll_tick r s) = queries s" "queries (after_poll_first r s) = queries s"
  using assms
  by (simp_all add: poll_only_def after_poll_tick_def after_poll_first_def getJob_def
      clearInterval_def clear_timer_def split: reply.splits body.splits option.splits)

lemma poll_only_step:
  assumes calm: "poll_only s" and e: "\<not> is_click_start e"
  shows "poll_only (live_step s e) \<and> queries (live_step s e) = queries s"
proof (cases e)
  case (Pick f)
  with calm show ?thesis by (simp add: poll_only_def pick_def)
next
  case (SetRisk r)
  with calm show ?thesis by (simp add: poll_only_def)
next
  case ClickStart
  with e show ?thesis by (simp add: is_click_start_def)
next
  case ClickCancel
  with calm show ?thesis
    by (simp add: poll_only_def live_cancelPolling_def clearInterval_def clear_timer_def
        split: option.splits)
next
  case (Fire h)
  with calm show ?thesis by (simp add: poll_only_def live_fire_def find_timer_def)
next
  case (CreateReply i r)
  with calm poll_only_lookup [OF calm, of i] show ?thesis
    by (auto simp: is_submission_call_def split: option.splits pending_call.splits)
next
  case (UploadReply i r)
  with calm poll_only_lookup [OF calm, of i] show ?thesis
    by (auto simp: is_submission_call_def split: option.splits pending_call.splits)
next
  case (StartReply i r)
  with calm poll_only_lookup [OF calm, of i] show ?thesis
    by (auto simp: is_submission_call_def split: option.splits pending_call.splits)
next
  case (PollReply i r)
  with calm poll_only_after_poll [OF poll_only_settle [OF calm, of i], of r] show ?thesis
    by (auto simp: settle_cells split: option.splits pending_call.splits)
qed

lemma poll_only_foldl:
  assumes "poll_only s" "list_all (\<lambda>e. \<not> is_click_start e) fs"
  shows "poll_only (foldl live_step s fs) \<and> queries (foldl live_step s fs) = queries s"
  using assms
proof (induction fs arbitrary: s)
  case Nil
  then show ?case by simp
next
  case (Cons e fs)
  from Cons.prems have step: "poll_only (live_step s e)" "queries (live_step s e) = queries s"
    using poll_only_step [of s e] by simp_all
  from Cons.IH [OF step(1)] Cons.prems(2) step(2) show ?case by simp
qed

text \<open>
  C2, as the code has it. \<open>cancelPolling\<close> clears the polling interval and \<open>busy\<close> and
  nothing else: the suspended calls stay as they are. When it runs while no submission
  sequence is in flight (no creation, upload or start request outstanding and no grace
  delay pending), no status query is sent afterwards, whatever timers fire and
  responses arrive, until the user clicks \<open>Start\<close> again; no timer is pending then.
\<close>

theorem no_query_after_cancel_outside_submission:
  assumes "\<not> submission_in_flight (live_run es)" and "list_all (\<lambda>e. \<not> is_click_start e) fs"
  shows "queries (foldl live_step (live_cancelPolling (live_run es)) fs) = queries (live_run es)
    \<and> live_timers (foldl live_step (live_cancelPolling (live_run es)) fs) = []
    \<and> inflight (live_cancelPolling (live_run es)) = inflight (live_run es)
    \<and> \<not> busy (live_cancelPolling (live_run es))"
proof -
  have "poll_only (live_cancelPolling (live_run es))"
    by (rule cancel_poll_only [OF live_inv_run assms(1)])
  from poll_only_foldl [OF this assms(2)] show ?thesis
    by (simp add: poll_only_def live_cancelPolling_def clearInterval_cells)
qed

theorem no_query_after_cancel_outside_submission_witness:
  "\<not> submission_in_flight (live_run live_polling)
   \<and> list_all (\<lambda>e. \<not> is_click_start e)
        [PollReply 4 (Response 200 (Json running_json)), Fire 2, Fire 2]
   \<and> queries (live_run live_polling) = [''job-17'', ''job-17'']
   \<and> queries (foldl live_step (live_cancelPolling (live_run live_polling))
        [PollReply 4 (Response 200 (Json running_json)), Fire 2, Fire 2])
       = [''job-17'', ''job-17'']
   \<and> live_timers (foldl live_step (live_cancelPolling (live_run live_polling))
        [PollReply 4 (Response 200 (Json running_json)), Fire 2, Fire 2]) = []"
proof -
  have quiet: "\<not> submission_in_flight (live_run live_polling)"
    by (simp add: live_polling_state submission_in_flight_def is_submission_call_def
        is_grace_def)
  have later: "list_all (\<lambda>e. \<not> is_click_start e)
        [PollReply 4 (Response 200 (Json running_json)), Fire 2, Fire 2]"
    by (simp add: is_click_start_def)
  have before: "queries (live_run live_polling) = [''job-17'', ''job-17'']"
    by (simp add: live_polling_state)
  from no_query_after_cancel_outside_submission [OF quiet later]
  have "queries (foldl live_step (live_cancelPolling (live_run live_polling))
          [PollReply 4 (Response 200 (Json running_json)), Fire 2, Fire 2])
        = queries (live_run live_polling)"
    and "live_timers (foldl live_step (live_cancelPolling (live_run live_polling))
          [PollReply 4 (Response 200 (Json running_json)), Fire 2, Fire 2]) = []"
    by blast+
  with quiet later before show ?thesis
    by (simp only: simp_thms)
qed

lemma live_cancelled_state:
  "live_run (live_created @ [ClickCancel]) =
   \<lparr>risk = MEDIUM, chosen_file = Some law_html, jobId = Some ''job-17'',
    status = Some ''PENDING'', resultUrl = None, resultData = None, error = None, busy = False,
    pollRef = None, live_timers = [], live_ticket = 0,
    inflight = [(1, AwaitUpload ''job-17'')], next_request = 2, queries = []\<rparr>"
  by (simp add: live_run_snoc live_created_state live_cancelPolling_def clearInterval_def)

lemma live_cancelled_early_state:
  "live_run live_cancelled_early =
   \<lparr>risk = MEDIUM, chosen_file = Some law_html, jobId = Some ''job-17'',
    status = Some ''PENDING'', resultUrl = None, resultData = None, error = None, busy = False,
    pollRef = None, live_timers = [], live_ticket = 2,
    inflight = [(2, AwaitStart ''job-17'')], next_request = 3, queries = []\<rparr>"
proof -
  have "live_run ((live_created @ [ClickCancel]) @ [UploadReply 1 (Response 200 (Json [])), Fire 0])
      = foldl live_step (live_run (live_created @ [ClickCancel]))
          [UploadReply 1 (Response 200 (Json [])), Fire 0]"
    by (rule live_run_append)
  moreover have "live_cancelled_early =
      (live_created @ [ClickCancel]) @ [UploadReply 1 (Response 200 (Json [])), Fire 0]"
    by (simp add: live_cancelled_early_def)
  ultimately have run: "live_run live_cancelled_early =
      foldl live_step (live_run (live_created @ [ClickCancel]))
        [UploadReply 1 (Response 200 (Json [])), Fire 0]"
    by (simp only:)
  show ?thesis
    unfolding run live_cancelled_state
    by (simp add: settle_def after_upload_def ok_def live_setTimer_def new_timer_def
        live_fire_def find_timer_def may_fire_def clear_timer_def after_grace_def send_def)
qed

lemma live_cancelled_polling_state:
  "live_run (live_cancelled_early @ [StartReply 2 (Response 202 (Json ()))]) =
   \<lparr>risk = MEDIUM, chosen_file = Some law_html, jobId = Some ''job-17'',
    status = Some ''RUNNING'', resultUrl = None, resultData = None, error = None, busy = False,
    pollRef = Some 2,
    live_timers = [\<lparr>handle = 2, seq = 2, delay = 2500, repeating = True,
                     callback = PollTick ''job-17''\<rparr>],
    live_ticket = 3, inflight = [(3, AwaitPollFirst ''job-17'')], next_request = 4,
    queries = [''job-17'']\<rparr>"
  by (simp add: live_run_snoc live_cancelled_early_state settle_def after_start_def
      beginPolling_def clearInterval_def getJob_send_def send_def live_setTimer_def
      new_timer_def Let_def)

text \<open>
  C2, as stated, fails: a cancellation during the upload clears \<open>busy\<close> and finds no
  interval to clear; the suspended \<open>start\<close> goes on, and once its start call is accepted
  \<open>beginPolling\<close> sends a status query and arms the interval, which sends the next one.
\<close>

theorem cancel_during_upload_still_polls_counterexample:
  "\<not> busy (live_run (live_created @ [ClickCancel]))
   \<and> queries (live_run (live_created @ [ClickCancel])) = []
   \<and> queries (live_run (live_cancelled_early @ [StartReply 2 (Response 202 (Json ()))]))
       = [''job-17'']
   \<and> queries (live_run ((live_cancelled_early @ [StartReply 2 (Response 202 (Json ()))]) @ [Fire 2]))
       = [''job-17'', ''job-17'']"
  by (simp only: live_run_snoc [of _ "Fire 2"] live_cancelled_polling_state live_cancelled_state)
    (simp add: live_fire_def find_timer_def may_fire_def rearm_def getJob_send_def send_def)

section \<open>Status \<open>COMPLETED\<close> and the result location\<close>

lemma status_clearInterval_busy:
  "status ((clearInterval r s)\<lparr>busy := b\<rparr>) = status s"
  "resultUrl ((clearInterval r s)\<lparr>busy := b\<rparr>) = resultUrl s"
  by (simp_all add: clearInterval_cells)

lemma status_fire: "status (live_fire h s) = status s"
  by (simp add: live_fire_def after_grace_def getJob_send_def send_def Let_def
      split: option.splits live_callback.splits)

lemma status_after_create:
  "status (after_create r s) = Some ''COMPLETED'' \<Longrightarrow> status s = Some ''COMPLETED''"
  by (auto simp: after_create_def fail_def send_def split: reply.splits body.splits if_splits)

lemma status_after_upload:
  "status (after_upload r ident s) = Some ''COMPLETED'' \<Longrightarrow> status s = Some ''COMPLETED''"
  by (auto simp: after_upload_def fail_def live_setTimer_def split: reply.splits if_splits)

lemma status_beginPolling: "status (beginPolling ident s) = status s"
  by (simp add: beginPolling_def getJob_send_def send_def live_setTimer_def clearInterval_def
      Let_def split: option.splits)

lemma status_after_start: "status (after_start r ident s) \<noteq> Some ''COMPLETED''"
  by (simp add: after_start_def fail_def status_beginPolling split: reply.splits)

text \<open>What a status query leaves in \<open>status\<close> and \<open>resultUrl\<close>.\<close>

lemma getJob_cells:
  "status (snd (getJob r s)) =
     (case r of Response code (Json d) \<Rightarrow> if ok code then json_status d else status s
      | _ \<Rightarrow> status s)"
  "resultUrl (snd (getJob r s)) =
     (case r of Response code (Json d) \<Rightarrow>
        if ok code \<and> truthy (result_url d) then result_url d else resultUrl s
      | _ \<Rightarrow> resultUrl s)"
  by (auto simp: getJob_def ok_def split: reply.splits body.splits)

lemma after_poll_cells:
  "status (after_poll_tick r s) = status (snd (getJob r s))"
  "resultUrl (after_poll_tick r s) = resultUrl (snd (getJob r s))"
  "status (after_poll_first r s) = status (snd (getJob r s))"
  "resultUrl (after_poll_first r s) = resultUrl (snd (getJob r s))"
  by (simp_all add: after_poll_tick_def after_poll_first_def status_clearInterval_busy
      split: prod.splits sum.splits option.splits)

lemma completed_only_by_poll:
  assumes after: "status (live_step s e) = Some ''COMPLETED''"
    and before: "status s \<noteq> Some ''COMPLETED''"
  shows "\<exists>i code d. e = PollReply i (Response code (Json d)) \<and> ok code
           \<and> json_status d = Some ''COMPLETED''
           \<and> resultUrl (live_step s e)
               = (if truthy (result_url d) then result_url d else resultUrl s)"
proof (cases e)
  case (Pick f)
  with after before show ?thesis by (simp add: pick_def split: if_splits)
next
  case (SetRisk r)
  with after before show ?thesis by (simp split: if_splits)
next
  case ClickStart
  with after before show ?thesis
    by (simp add: live_start_def send_def Let_def split: if_splits option.splits)
next
  case ClickCancel
  with after before show ?thesis
    by (simp add: live_cancelPolling_def clearInterval_cells split: if_splits)
next
  case (Fire h)
  with after before show ?thesis by (simp add: status_fire)
next
  case (CreateReply i r)
  with after before show ?thesis
    by (auto simp: settle_cells dest!: status_after_create split: option.splits pending_call.splits)
next
  case (UploadReply i r)
  with after before show ?thesis
    by (auto simp: settle_cells dest!: status_after_upload split: option.splits pending_call.splits)
next
  case (StartReply i r)
  with after before show ?thesis
    by (auto simp: status_after_start split: option.splits pending_call.splits)
next
  case (PollReply i r)
  have cells: "status (live_step s e) = status s \<and> resultUrl (live_step s e) = resultUrl s
      \<or> status (live_step s e) = status (snd (getJob r (settle i s)))
        \<and> resultUrl (live_step s e) = resultUrl (snd (getJob r (settle i s)))"
    unfolding PollReply
    by (simp add: after_poll_cells split: option.splits pending_call.splits)
  with after before
  have st: "status (snd (getJob r (settle i s))) = Some ''COMPLETED''"
    and ru: "resultUrl (live_step s e) = resultUrl (snd (getJob r (settle i s)))"
    by auto
  from st before obtain code d where r: "r = Response code (Json d)" "ok code"
      "json_status d = Some ''COMPLETED''"
    by (auto simp: getJob_cells settle_cells split: reply.splits body.splits if_splits)
  with ru have "resultUrl (live_step s e)
      = (if truthy (result_url d) then result_url d else resultUrl s)"
    by (simp add: getJob_cells settle_cells)
  with r PollReply show ?thesis by blast
qed

lemma sim_completed_iff:
  "status (sim_run es) = Some ''COMPLETED'' \<longleftrightarrow> resultUrl (sim_run es) \<noteq> None"
  "resultUrl (sim_run es) \<noteq> None \<longleftrightarrow> truthy (resultUrl (sim_run es))"
proof -
  have inv: "cells_ok (sim_run es)"
    using sim_inv_run [of es] by (simp add: sim_inv_def)
  show a: "status (sim_run es) = Some ''COMPLETED'' \<longleftrightarrow> resultUrl (sim_run es) \<noteq> None"
    using inv unfolding cells_ok_def by (cases "busy (sim_run es)") auto
  show "resultUrl (sim_run es) \<noteq> None \<longleftrightarrow> truthy (resultUrl (sim_run es))"
  proof
    assume "resultUrl (sim_run es) \<noteq> None"
    with a have c: "status (sim_run es) = Some ''COMPLETED''" by simp
    with inv have "\<exists>ident. resultUrl (sim_run es) = Some (createObjectURL ident)"
      unfolding cells_ok_def by (cases "busy (sim_run es)") auto
    then show "truthy (resultUrl (sim_run es))"
      by (auto simp: truthy_def createObjectURL_def)
  next
    assume "truthy (resultUrl (sim_run es))"
    then show "resultUrl (sim_run es) \<noteq> None" by (auto simp: truthy_def split: option.splits)
  qed
qed

text \<open>
  C1, as the code has it. In the simulated driver, in every state the component can
  reach, a result location is set exactly when the status is \<open>COMPLETED\<close>, and it is
  then non-empty. In the live driver the client stores what the status query reports:
  the status becomes \<open>COMPLETED\<close> only by a successful response to a status query that
  reports it, and the result location after that step is the non-empty \<open>result_url\<close> of
  that response if it carries one, and otherwise what it was before.
\<close>

theorem completed_and_result_location:
  "(status (sim_run ds) = Some ''COMPLETED'' \<longleftrightarrow> resultUrl (sim_run ds) \<noteq> None)
   \<and> (resultUrl (sim_run ds) \<noteq> None \<longleftrightarrow> truthy (resultUrl (sim_run ds)))
   \<and> (status (live_step s e) = Some ''COMPLETED'' \<and> status s \<noteq> Some ''COMPLETED'' \<longrightarrow>
        (\<exists>i code d. e = PollReply i (Response code (Json d)) \<and> ok code
           \<and> json_status d = Some ''COMPLETED''
           \<and> resultUrl (live_step s e)
               = (if truthy (result_url d) then result_url d else resultUrl s)))"
  using sim_completed_iff [of ds] completed_only_by_poll [of s e] by blast

theorem completed_and_result_location_witness:
  "status (sim_run (sim_two_ticks @ [SimFire 2 ''3f1c''])) = Some ''COMPLETED''
   \<and> resultUrl (sim_run (sim_two_ticks @ [SimFire 2 ''3f1c''])) = Some ''blob:3f1c''
   \<and> status (live_run live_polling) \<noteq> Some ''COMPLETED''
   \<and> status (live_step (live_run live_polling)
        (PollReply 4 (Response 200 (Json \<lparr>json_status = Some ''COMPLETED'',
                                           result_url = Some ''https://bucket/result.json''\<rparr>))))
       = Some ''COMPLETED''
   \<and> resultUrl (live_step (live_run live_polling)
        (PollReply 4 (Response 200 (Json \<lparr>json_status = Some ''COMPLETED'',
                                           result_url = Some ''https://bucket/result.json''\<rparr>))))
       = Some ''https://bucket/result.json''"
  using completed_and_result_location
          [of "sim_two_ticks @ [SimFire 2 ''3f1c'']" "live_run live_polling"
              "PollReply 4 (Response 200 (Json \<lparr>json_status = Some ''COMPLETED'',
                                                 result_url = Some ''https://bucket/result.json''\<rparr>))"]
  apply (simp only: sim_run_snoc sim_completed_state)
  apply (simp add: live_polling_state settle_def after_poll_tick_def getJob_def ok_def truthy_def
      clearInterval_def clear_timer_def createObjectURL_def)
  done

text \<open>
  C1, as stated, fails in the live driver, in both directions: a response that reports
  \<open>COMPLETED\<close> without a \<open>result_url\<close> leaves the status \<open>COMPLETED\<close> with no result
  location, and a response that reports \<open>RUNNING\<close> with a \<open>result_url\<close> leaves a result
  location under the status \<open>RUNNING\<close>.
\<close>

theorem completed_without_location_counterexample:
  "status (live_step (live_run live_polling)
      (PollReply 4 (Response 200 (Json \<lparr>json_status = Some ''COMPLETED'', result_url = None\<rparr>))))
     = Some ''COMPLETED''
   \<and> resultUrl (live_step (live_run live_polling)
      (PollReply 4 (Response 200 (Json \<lparr>json_status = Some ''COMPLETED'', result_url = None\<rparr>))))
     = None
   \<and> status (live_step (live_run live_polling)
      (PollReply 4 (Response 200 (Json \<lparr>json_status = Some ''RUNNING'',
                                         result_url = Some ''https://bucket/result.json''\<rparr>))))
     = Some ''RUNNING''
   \<and> resultUrl (live_step (live_run live_polling)
      (PollReply 4 (Response 200 (Json \<lparr>json_status = Some ''RUNNING'',
                                         result_url = Some ''https://bucket/result.json''\<rparr>))))
     = Some ''https://bucket/result.json''"
  by (simp add: live_polling_state settle_def after_poll_tick_def getJob_def ok_def truthy_def
      clearInterval_def clear_timer_def)

end
